theory Spec2Isabelle
  imports Main "HOL-Library.Word" "HOL-Library.Log_Nat"
begin

section \<open>The arena allocator of arena.h\<close>

text \<open>
  A shallow embedding of \<^verbatim>\<open>src/arena.h\<close> on a 64-bit platform: \<^verbatim>\<open>size_t\<close> and
  \<^verbatim>\<open>uintptr_t\<close> are 64-bit words, so every \<open>+\<close> and \<open>-\<close> below wraps modulo
  \<open>2 ^ 64\<close> as the unsigned arithmetic of the C code does. A pointer is its address;
  \<^verbatim>\<open>NULL\<close> is the address \<open>0\<close>.
\<close>

type_synonym size_t = "64 word"
type_synonym uintptr_t = "64 word"

text \<open>
  What C leaves undefined and the code can reach: the remainder by a zero alignment
  (\<^verbatim>\<open>p % a\<close>) and the dereference of a null block pointer (\<^verbatim>\<open>cur->next\<close>).
\<close>

datatype fault = Div_by_zero | Null_deref

subsection \<open>Data\<close>

text \<open>
  \<^verbatim>\<open>struct ArenaBlock\<close>. The chain built from the \<^verbatim>\<open>next\<close> pointers is a list of
  blocks, the head of the chain first; a null \<^verbatim>\<open>next\<close> (and a null \<^verbatim>\<open>head\<close>) is the
  empty list. \<open>addr\<close> is the address of the record itself, the value of the
  \<^verbatim>\<open>struct ArenaBlock*\<close> that points to it.
\<close>

record ArenaBlock =
  addr :: uintptr_t
  data :: uintptr_t
  offset :: size_t
  capacity :: size_t

text \<open>
  \<^verbatim>\<open>struct ArenaAllocator\<close>. The two procedures work on the memory of the host, which is
  a state \<open>'h\<close> of its own: \<open>mem_alloc h n\<close> returns the address (\<open>0\<close> when it fails) and
  the host's new state, \<open>mem_free h p\<close> the state after the release.
\<close>

record 'h ArenaAllocator =
  mem_alloc :: "'h \<Rightarrow> size_t \<Rightarrow> uintptr_t \<times> 'h"
  mem_free :: "'h \<Rightarrow> uintptr_t \<Rightarrow> 'h"
  head :: "ArenaBlock list"

text \<open>\<^verbatim>\<open>sizeof(struct ArenaBlock)\<close>: two pointers and two \<^verbatim>\<open>size_t\<close>.\<close>

definition sizeof_ArenaBlock :: size_t where
  "sizeof_ArenaBlock = 32"

subsection \<open>The growth factor\<close>

text \<open>
  \<^verbatim>\<open>new_cap * ARENA_GROW_FACTOR\<close> is a product of doubles, converted back to
  \<^verbatim>\<open>size_t\<close> by truncation. \<open>round_to_53\<close> rounds a natural number to 53 significant
  bits, to nearest and ties to even, as IEEE 754 binary64 does; \<open>1.15\<close> is the double
  \<open>5179139571476070 / 2 ^ 52\<close>. A product of \<open>2 ^ 64\<close> or more cannot be converted
  (C leaves it undefined); here it wraps.
\<close>

definition round_to_53 :: "nat \<Rightarrow> nat" where
  "round_to_53 n =
     (if n < 2 ^ 53 then n
      else let s = floorlog 2 n - 53;
               q = n div 2 ^ s;
               r = n mod 2 ^ s
           in (if 2 ^ s < 2 * r \<or> (2 * r = 2 ^ s \<and> odd q) then q + 1 else q) * 2 ^ s)"

definition ARENA_GROW_FACTOR :: nat where
  "ARENA_GROW_FACTOR = 5179139571476070"

definition grow_capacity :: "size_t \<Rightarrow> size_t" where
  "grow_capacity new_cap =
     word_of_nat (round_to_53 (round_to_53 (unat new_cap) * ARENA_GROW_FACTOR) div 2 ^ 52)"

subsection \<open>Alignment arithmetic\<close>

definition align_forward_ptr :: "uintptr_t \<Rightarrow> uintptr_t \<Rightarrow> fault + uintptr_t" where
  "align_forward_ptr p a =
     (if a = 0 then Inl Div_by_zero
      else let m = p mod a in Inr (if m > 0 then p + (a - m) else p))"

definition align_forward_size :: "size_t \<Rightarrow> size_t \<Rightarrow> fault + size_t" where
  "align_forward_size p a =
     (if a = 0 then Inl Div_by_zero
      else let m = p mod a in Inr (if m > 0 then p + (a - m) else p))"

subsection \<open>Blocks\<close>

definition arena_block_create ::
  "'h ArenaAllocator \<Rightarrow> 'h \<Rightarrow> size_t \<Rightarrow> ArenaBlock option \<times> 'h" where
  "arena_block_create ar h cap =
     (case mem_alloc ar h sizeof_ArenaBlock of (blk, h1) \<Rightarrow>
        if blk = 0 then (None, h1)
        else (case mem_alloc ar h1 cap of (d, h2) \<Rightarrow>
          if d = 0 then (None, mem_free ar h2 blk)
          else (Some \<lparr>addr = blk, data = d, offset = 0, capacity = cap\<rparr>, h2)))"

text \<open>
  \<^verbatim>\<open>arena_create\<close>: a null procedure argument (\<open>None\<close>) selects the default, the
  wrapper of the C library's \<^verbatim>\<open>malloc\<close> or \<^verbatim>\<open>free\<close>, which is a parameter here. A
  null block pointer stored in \<^verbatim>\<open>head\<close> is the empty chain.
\<close>

definition arena_create ::
  "('h \<Rightarrow> size_t \<Rightarrow> uintptr_t \<times> 'h) \<Rightarrow> ('h \<Rightarrow> uintptr_t \<Rightarrow> 'h) \<Rightarrow>
   ('h \<Rightarrow> size_t \<Rightarrow> uintptr_t \<times> 'h) option \<Rightarrow> ('h \<Rightarrow> uintptr_t \<Rightarrow> 'h) option \<Rightarrow>
   'h \<Rightarrow> size_t \<Rightarrow> 'h ArenaAllocator \<times> 'h" where
  "arena_create arena_default_mem_alloc arena_default_mem_free mem_alloc_proc mem_free_proc h cap =
     (let alloc_proc = (case mem_alloc_proc of None \<Rightarrow> arena_default_mem_alloc | Some f \<Rightarrow> f);
          free_proc = (case mem_free_proc of None \<Rightarrow> arena_default_mem_free | Some f \<Rightarrow> f);
          ar = \<lparr>mem_alloc = alloc_proc, mem_free = free_proc, head = []\<rparr>
      in case arena_block_create ar h cap of
           (None, h') \<Rightarrow> (ar\<lparr>head := []\<rparr>, h')
         | (Some blk, h') \<Rightarrow> (ar\<lparr>head := [blk]\<rparr>, h'))"

definition arena_push_block ::
  "'h ArenaAllocator \<Rightarrow> 'h \<Rightarrow> size_t \<Rightarrow> bool \<times> 'h ArenaAllocator \<times> 'h" where
  "arena_push_block ar h cap =
     (case arena_block_create ar h cap of
        (None, h') \<Rightarrow> (False, ar, h')
      | (Some blk, h') \<Rightarrow> (True, ar\<lparr>head := blk # head ar\<rparr>, h'))"

definition arena_block_get_required ::
  "uintptr_t \<Rightarrow> size_t \<Rightarrow> size_t \<Rightarrow> fault + uintptr_t" where
  "arena_block_get_required cur nbytes alignment =
     (case align_forward_ptr cur alignment of
        Inl f \<Rightarrow> Inl f
      | Inr aligned \<Rightarrow> let padding = aligned - cur in Inr (padding + nbytes))"

text \<open>
  \<^verbatim>\<open>arena_block_alloc_raw\<close> returns the pointer and leaves the block updated; here the
  updated block is returned beside the pointer.
\<close>

definition arena_block_alloc_raw ::
  "ArenaBlock \<Rightarrow> size_t \<Rightarrow> size_t \<Rightarrow> fault + (uintptr_t \<times> ArenaBlock)" where
  "arena_block_alloc_raw blk nbytes alignment =
     (let base = data blk;
          cur = base + offset blk;
          available = capacity blk - (cur - base)
      in case arena_block_get_required cur nbytes alignment of
           Inl f \<Rightarrow> Inl f
         | Inr required \<Rightarrow>
             if required > available then Inr (0, blk)
             else let blk' = blk\<lparr>offset := offset blk + required\<rparr>
                  in Inr (data blk' + (offset blk' - nbytes), blk'))"

subsection \<open>Allocation\<close>

text \<open>
  The \<^verbatim>\<open>while\<close> loop of \<^verbatim>\<open>arena_alloc_raw\<close> over the chain, from the block \<open>blk\<close> on: the
  pointer found (\<open>0\<close> when the loop runs off the end) and the chain as the calls on
  its blocks left it.
\<close>

fun alloc_loop ::
  "ArenaBlock list \<Rightarrow> size_t \<Rightarrow> size_t \<Rightarrow> fault + (uintptr_t \<times> ArenaBlock list)" where
  "alloc_loop [] nbytes alignment = Inr (0, [])"
| "alloc_loop (blk # rest) nbytes alignment =
     (case arena_block_alloc_raw blk nbytes alignment of
        Inl f \<Rightarrow> Inl f
      | Inr (p, blk') \<Rightarrow>
          if p \<noteq> 0 then Inr (p, blk' # rest)
          else (case alloc_loop rest nbytes alignment of
                  Inl f \<Rightarrow> Inl f
                | Inr (q, rest') \<Rightarrow> Inr (q, blk' # rest')))"

text \<open>
  \<^verbatim>\<open>arena_alloc_raw\<close> calls itself after a successful push, with nothing that bounds the
  number of pushes: the function is partial, \<open>None\<close> is the call that never returns.
\<close>

partial_function (option) arena_alloc_raw ::
  "'h ArenaAllocator \<Rightarrow> 'h \<Rightarrow> size_t \<Rightarrow> size_t \<Rightarrow>
   (fault + (uintptr_t \<times> 'h ArenaAllocator \<times> 'h)) option" where
  "arena_alloc_raw ar h nbytes alignment =
     (if nbytes = 0 then Some (Inr (0, ar, h))
      else case alloc_loop (head ar) nbytes alignment of
        Inl f \<Rightarrow> Some (Inl f)
      | Inr (p, blks) \<Rightarrow>
          if p \<noteq> 0 then Some (Inr (p, ar\<lparr>head := blks\<rparr>, h))
          else (case align_forward_size nbytes alignment of
                  Inl f \<Rightarrow> Some (Inl f)
                | Inr new_cap \<Rightarrow>
                    (case arena_push_block (ar\<lparr>head := blks\<rparr>) h (grow_capacity new_cap) of
                       (ok, ar', h') \<Rightarrow>
                         if ok then arena_alloc_raw ar' h' nbytes alignment
                         else Some (Inr (0, ar', h')))))"

declare arena_alloc_raw.simps [code]

subsection \<open>Reset, destroy and the queries\<close>

text \<open>The loops of \<^verbatim>\<open>arena_reset\<close> and \<^verbatim>\<open>arena_destroy\<close>, entered with \<open>cur\<close> not null.\<close>

fun reset_loop :: "ArenaBlock \<Rightarrow> ArenaBlock list \<Rightarrow> ArenaBlock list" where
  "reset_loop cur [] = [cur\<lparr>offset := 0\<rparr>]"
| "reset_loop cur (nxt # rest) = cur\<lparr>offset := 0\<rparr> # reset_loop nxt rest"

definition arena_reset :: "'h ArenaAllocator \<Rightarrow> fault + 'h ArenaAllocator" where
  "arena_reset ar =
     (case head ar of
        [] \<Rightarrow> Inl Null_deref
      | cur # rest \<Rightarrow> Inr (ar\<lparr>head := reset_loop cur rest\<rparr>))"

definition arena_block_destroy :: "'h ArenaAllocator \<Rightarrow> 'h \<Rightarrow> ArenaBlock \<Rightarrow> 'h" where
  "arena_block_destroy ar h b = mem_free ar (mem_free ar h (data b)) (addr b)"

fun destroy_loop :: "'h ArenaAllocator \<Rightarrow> 'h \<Rightarrow> ArenaBlock \<Rightarrow> ArenaBlock list \<Rightarrow> 'h" where
  "destroy_loop ar h cur [] = arena_block_destroy ar h cur"
| "destroy_loop ar h cur (nxt # rest) = destroy_loop ar (arena_block_destroy ar h cur) nxt rest"

definition arena_destroy ::
  "'h ArenaAllocator \<Rightarrow> 'h \<Rightarrow> fault + ('h ArenaAllocator \<times> 'h)" where
  "arena_destroy ar h =
     (case head ar of
        [] \<Rightarrow> Inl Null_deref
      | cur # rest \<Rightarrow> Inr (ar\<lparr>head := []\<rparr>, destroy_loop ar h cur rest))"

fun block_count_loop :: "ArenaBlock list \<Rightarrow> size_t \<Rightarrow> size_t" where
  "block_count_loop [] total' = total'"
| "block_count_loop (blk # rest) total' = block_count_loop rest (total' + 1)"

definition arena_block_count :: "'h ArenaAllocator \<Rightarrow> size_t" where
  "arena_block_count ar = block_count_loop (head ar) 0"

fun total_capacity_loop :: "ArenaBlock list \<Rightarrow> size_t \<Rightarrow> size_t" where
  "total_capacity_loop [] total' = total'"
| "total_capacity_loop (blk # rest) total' = total_capacity_loop rest (total' + capacity blk)"

definition arena_total_capacity :: "'h ArenaAllocator \<Rightarrow> size_t" where
  "arena_total_capacity ar = total_capacity_loop (head ar) 0"

subsection \<open>A scripted host allocator\<close>

text \<open>
  A host whose answers are written down in advance: the state is the list of the
  addresses still to be handed out, an empty list is an exhausted host.
\<close>

definition scripted_alloc :: "uintptr_t list \<Rightarrow> size_t \<Rightarrow> uintptr_t \<times> uintptr_t list" where
  "scripted_alloc h n = (case h of [] \<Rightarrow> (0, []) | p # ps \<Rightarrow> (p, ps))"

definition scripted_free :: "uintptr_t list \<Rightarrow> uintptr_t \<Rightarrow> uintptr_t list" where
  "scripted_free h p = h"

definition scripted_arena :: "ArenaBlock list \<Rightarrow> uintptr_t list ArenaAllocator" where
  "scripted_arena blks = \<lparr>mem_alloc = scripted_alloc, mem_free = scripted_free, head = blks\<rparr>"

subsection \<open>Vocabulary of the properties\<close>

definition power_of_two :: "size_t \<Rightarrow> bool" where
  "power_of_two a \<longleftrightarrow> (\<exists>k<64. unat a = 2 ^ k)"

text \<open>
  The byte region \<open>[p, p + n)\<close> as a set of addresses, a block's buffer and the part of
  it that the bump offset has passed.
\<close>

definition region :: "uintptr_t \<Rightarrow> size_t \<Rightarrow> nat set" where
  "region p n = {unat p ..< unat p + unat n}"

definition buffer :: "ArenaBlock \<Rightarrow> nat set" where
  "buffer b = region (data b) (capacity b)"

definition used :: "ArenaBlock \<Rightarrow> nat set" where
  "used b = region (data b) (offset b)"

text \<open>
  The invariant of a block: a buffer that is not null and ends below the top of the
  address space, and an offset within the capacity.
\<close>

definition buffer_ok :: "ArenaBlock \<Rightarrow> bool" where
  "buffer_ok b \<longleftrightarrow> data b \<noteq> 0 \<and> unat (data b) + unat (capacity b) < 2 ^ 64"

definition block_ok :: "ArenaBlock \<Rightarrow> bool" where
  "block_ok b \<longleftrightarrow> buffer_ok b \<and> offset b \<le> capacity b"

text \<open>What the host owes the arena: buffers that are in order and pairwise disjoint.\<close>

fun disjoint_buffers :: "ArenaBlock list \<Rightarrow> bool" where
  "disjoint_buffers [] \<longleftrightarrow> True"
| "disjoint_buffers (b # bs) \<longleftrightarrow> (\<forall>x\<in>set bs. buffer b \<inter> buffer x = {}) \<and> disjoint_buffers bs"

definition buffers_ok :: "ArenaBlock list \<Rightarrow> bool" where
  "buffers_ok bs \<longleftrightarrow> (\<forall>b\<in>set bs. buffer_ok b) \<and> disjoint_buffers bs"

text \<open>
  Enough aligned free space, in unbounded arithmetic: the padding that brings the
  current position \<open>data + offset\<close> up to a multiple of the alignment, plus the size, is
  at most \<open>capacity - offset\<close>.
\<close>

definition padding_to :: "nat \<Rightarrow> nat \<Rightarrow> nat" where
  "padding_to cur a = (a - cur mod a) mod a"

definition fits :: "ArenaBlock \<Rightarrow> size_t \<Rightarrow> size_t \<Rightarrow> bool" where
  "fits b nbytes alignment \<longleftrightarrow>
     padding_to (unat (data b) + unat (offset b)) (unat alignment) + unat nbytes
       \<le> unat (capacity b) - unat (offset b)"

text \<open>
  The padding \<^verbatim>\<open>aligned - cur\<close> of \<^verbatim>\<open>arena_block_get_required\<close> in closed form, for an
  alignment that is not zero.
\<close>

definition pad_w :: "uintptr_t \<Rightarrow> size_t \<Rightarrow> uintptr_t" where
  "pad_w cur a = (if cur mod a = 0 then 0 else a - cur mod a)"

text \<open>The test of \<^verbatim>\<open>arena_block_alloc_raw\<close> itself, \<^verbatim>\<open>required > available\<close>.\<close>

definition block_rejects :: "ArenaBlock \<Rightarrow> size_t \<Rightarrow> size_t \<Rightarrow> bool" where
  "block_rejects blk nbytes alignment \<longleftrightarrow>
     (case arena_block_get_required (data blk + offset blk) nbytes alignment of
        Inl f \<Rightarrow> False
      | Inr required \<Rightarrow> required > capacity blk - (data blk + offset blk - data blk))"

text \<open>A block after some allocations: the same record and buffer, the offset no lower.\<close>

definition block_advanced :: "ArenaBlock \<Rightarrow> ArenaBlock \<Rightarrow> bool" where
  "block_advanced b b' \<longleftrightarrow>
     addr b' = addr b \<and> data b' = data b \<and> capacity b' = capacity b \<and> offset b \<le> offset b'"

text \<open>A chain after some allocations: new blocks in front of the old ones, advanced.\<close>

definition chain_extends :: "ArenaBlock list \<Rightarrow> ArenaBlock list \<Rightarrow> bool" where
  "chain_extends bs bs' \<longleftrightarrow> (\<exists>new olds. bs' = new @ olds \<and> list_all2 block_advanced bs olds)"

text \<open>
  A sequence of calls of \<^verbatim>\<open>arena_alloc_raw\<close> on one arena, each a size and an alignment:
  the pointers returned, each with the size asked for, and the arena at the end.
\<close>

fun alloc_calls ::
  "'h ArenaAllocator \<Rightarrow> 'h \<Rightarrow> (size_t \<times> size_t) list \<Rightarrow>
   (fault + ((uintptr_t \<times> size_t) list \<times> 'h ArenaAllocator \<times> 'h)) option" where
  "alloc_calls ar h [] = Some (Inr ([], ar, h))"
| "alloc_calls ar h (req # reqs) =
     (case arena_alloc_raw ar h (fst req) (snd req) of
        None \<Rightarrow> None
      | Some (Inl f) \<Rightarrow> Some (Inl f)
      | Some (Inr (p, ar', h')) \<Rightarrow>
          (case alloc_calls ar' h' reqs of
             None \<Rightarrow> None
           | Some (Inl f) \<Rightarrow> Some (Inl f)
           | Some (Inr (rs, ar'', h'')) \<Rightarrow> Some (Inr ((p, fst req) # rs, ar'', h''))))"

fun disjoint_regions :: "(uintptr_t \<times> size_t) list \<Rightarrow> bool" where
  "disjoint_regions [] \<longleftrightarrow> True"
| "disjoint_regions (r # rs) \<longleftrightarrow>
     (\<forall>x\<in>set rs. region (fst r) (snd r) \<inter> region (fst x) (snd x) = {}) \<and> disjoint_regions rs"

section \<open>Properties\<close>

subsection \<open>Padding and alignment\<close>

lemma unat_pad_w:
  "a \<noteq> 0 \<Longrightarrow> unat (pad_w cur a) = padding_to (unat cur) (unat a)"
proof -
  assume a: "a \<noteq> 0"
  then have pos: "0 < unat a" by (simp add: unat_gt_0)
  have m: "unat (cur mod a) = unat cur mod unat a" by (rule unat_mod)
  have lt: "unat cur mod unat a < unat a" using pos by simp
  show ?thesis
  proof (cases "cur mod a = 0")
    case True
    then have "unat cur mod unat a = 0" using m by simp
    then show ?thesis using True by (simp add: pad_w_def padding_to_def)
  next
    case False
    then have "0 < unat (cur mod a)" by (simp add: unat_gt_0)
    then have nz: "unat cur mod unat a \<noteq> 0" using m by simp
    have le: "cur mod a \<le> a" using lt m by (simp add: word_le_nat_alt)
    have "unat (a - cur mod a) = unat a - unat cur mod unat a"
      using le by (simp add: unat_sub m)
    moreover have "(unat a - unat cur mod unat a) mod unat a = unat a - unat cur mod unat a"
      using nz lt by simp
    ultimately show ?thesis using False by (simp add: pad_w_def padding_to_def)
  qed
qed

lemma padding_to_less: "0 < a \<Longrightarrow> padding_to cur a < a"
  by (simp add: padding_to_def)

lemma padding_to_aligned: "0 < a \<Longrightarrow> (cur + padding_to cur a) mod a = 0"
proof -
  assume "0 < a"
  then have False: "a \<noteq> 0" by simp
  show ?thesis
  proof (cases "cur mod a = 0")
    case True then show ?thesis by (simp add: padding_to_def)
  next
    case nz: False
    have lt: "cur mod a < a" using False by simp
    then have "padding_to cur a = a - cur mod a" using nz by (simp add: padding_to_def)
    moreover have "cur = (cur div a) * a + cur mod a" by simp
    ultimately have "cur + padding_to cur a = (cur div a) * a + a"
      using lt by linarith
    then show ?thesis by simp
  qed
qed

lemma align_forward_ptr_Inr:
  "a \<noteq> 0 \<Longrightarrow> align_forward_ptr p a = Inr (p + pad_w p a)"
  by (simp add: align_forward_ptr_def Let_def word_greater_zero_iff pad_w_def)

lemma align_forward_size_Inr:
  "a \<noteq> 0 \<Longrightarrow> align_forward_size p a = Inr (p + pad_w p a)"
  by (simp add: align_forward_size_def Let_def word_greater_zero_iff pad_w_def)

lemma get_required_Inr:
  "a \<noteq> 0 \<Longrightarrow> arena_block_get_required cur n a = Inr (pad_w cur a + n)"
  by (simp add: arena_block_get_required_def align_forward_ptr_Inr)

lemma block_rejects_iff:
  "a \<noteq> 0 \<Longrightarrow> block_rejects b n a \<longleftrightarrow> pad_w (data b + offset b) a + n > capacity b - offset b"
  by (simp add: block_rejects_def get_required_Inr)

lemma block_alloc_zero_align:
  "arena_block_alloc_raw b n 0 = Inl Div_by_zero"
  by (simp add: arena_block_alloc_raw_def arena_block_get_required_def align_forward_ptr_def)

lemma block_alloc_unfold:
  "a \<noteq> 0 \<Longrightarrow> arena_block_alloc_raw b n a =
     (if block_rejects b n a then Inr (0, b)
      else Inr (data b + offset b + pad_w (data b + offset b) a,
                b\<lparr>offset := offset b + (pad_w (data b + offset b) a + n)\<rparr>))"
  by (simp add: arena_block_alloc_raw_def Let_def get_required_Inr block_rejects_iff algebra_simps)

lemma block_alloc_same_buffer:
  "arena_block_alloc_raw b n a = Inr (p, b') \<Longrightarrow>
   addr b' = addr b \<and> data b' = data b \<and> capacity b' = capacity b"
  by (cases "a = 0") (auto simp: block_alloc_zero_align block_alloc_unfold split: if_splits)

lemma block_alloc_offset:
  assumes "arena_block_alloc_raw b n a = Inr (p, b')" and "offset b \<le> capacity b"
  shows "offset b \<le> offset b' \<and> offset b' \<le> capacity b'"
proof (cases "a = 0")
  case True with assms show ?thesis by (simp add: block_alloc_zero_align)
next
  case False
  show ?thesis
  proof (cases "block_rejects b n a")
    case True with assms False show ?thesis by (simp add: block_alloc_unfold)
  next
    case acc: False
    define r where "r = pad_w (data b + offset b) a + n"
    have b': "b' = b\<lparr>offset := offset b + r\<rparr>"
      using assms False acc by (simp add: block_alloc_unfold r_def)
    have "r \<le> capacity b - offset b"
      using acc False by (simp add: block_rejects_iff r_def)
    then have "unat r \<le> unat (capacity b) - unat (offset b)"
      using assms(2) by (simp add: word_le_nat_alt unat_sub)
    moreover have "unat (offset b) \<le> unat (capacity b)"
      using assms(2) by (simp add: word_le_nat_alt)
    ultimately have s: "unat (offset b) + unat r \<le> unat (capacity b)" by linarith
    have "unat (capacity b) < 2 ^ 64" using unsigned_less[of "capacity b"] by simp
    then have "unat (offset b + r) = unat (offset b) + unat r"
      using s by (simp add: unat_add_lem[THEN iffD1])
    then show ?thesis using s by (simp add: b' word_le_nat_alt)
  qed
qed

lemma power_of_two_nonzero: "power_of_two a \<Longrightarrow> a \<noteq> 0"
  by (auto simp: power_of_two_def)

lemma power_of_two_dvd:
  assumes "power_of_two a"
  shows "unat a dvd 2 ^ 64"
proof -
  obtain k where k: "k < 64" "unat a = 2 ^ k"
    using assms unfolding power_of_two_def by blast
  from k(1) have "k \<le> 64" by simp
  then have "(2::nat) ^ k dvd 2 ^ 64" by (rule le_imp_power_dvd)
  then show ?thesis unfolding k(2) .
qed

lemma aligned_word:
  assumes "power_of_two a"
  shows "(cur + pad_w cur a) mod a = 0"
proof -
  have nz: "a \<noteq> 0" using assms by (rule power_of_two_nonzero)
  then have pos: "0 < unat a" by (simp add: unat_gt_0)
  have "unat (cur + pad_w cur a) = (unat cur + padding_to (unat cur) (unat a)) mod 2 ^ 64"
    by (simp add: unat_word_ariths unat_pad_w[OF nz])
  then have "unat (cur + pad_w cur a) mod unat a = (unat cur + padding_to (unat cur) (unat a)) mod unat a"
    using power_of_two_dvd[OF assms] by (simp add: mod_mod_cancel)
  then have "unat ((cur + pad_w cur a) mod a) = 0"
    using padding_to_aligned[OF pos] by (simp add: unat_mod)
  then show ?thesis by (simp add: unat_eq_0)
qed

lemma block_alloc_aligned:
  assumes "arena_block_alloc_raw b n a = Inr (p, b')" and "p \<noteq> 0" and "power_of_two a"
  shows "p mod a = 0"
proof -
  have nz: "a \<noteq> 0" using assms(3) by (rule power_of_two_nonzero)
  have "p = data b + offset b + pad_w (data b + offset b) a"
    using assms(1,2) nz by (simp add: block_alloc_unfold split: if_splits)
  then show ?thesis using aligned_word[OF assms(3)] by simp
qed

lemma alloc_loop_aligned:
  "alloc_loop bs n a = Inr (p, bs') \<Longrightarrow> p \<noteq> 0 \<Longrightarrow> power_of_two a \<Longrightarrow> p mod a = 0"
proof (induction bs arbitrary: p bs')
  case Nil then show ?case by simp
next
  case (Cons b bs)
  then show ?case
    by (auto split: sum.splits prod.splits if_splits dest: block_alloc_aligned)
qed

lemma arena_alloc_raw_aligned:
  assumes "arena_alloc_raw ar h n a = Some r"
  shows "\<forall>p ar' h'. r = Inr (p, ar', h') \<longrightarrow> p \<noteq> 0 \<longrightarrow> power_of_two a \<longrightarrow> p mod a = 0"
proof (rule arena_alloc_raw.raw_induct
    [where P = "\<lambda>ar h n a r. \<forall>p ar' h'. r = Inr (p, ar', h') \<longrightarrow> p \<noteq> 0 \<longrightarrow> power_of_two a \<longrightarrow> p mod a = 0",
     OF _ assms])
  fix f :: "'a ArenaAllocator \<Rightarrow> 'a \<Rightarrow> 64 word \<Rightarrow> 64 word \<Rightarrow> (fault + 64 word \<times> 'a ArenaAllocator \<times> 'a) option"
  fix ar h n a r
  assume IH: "\<And>ar h n a r. f ar h n a = Some r \<Longrightarrow>
     \<forall>p ar' h'. r = Inr (p, ar', h') \<longrightarrow> p \<noteq> 0 \<longrightarrow> power_of_two a \<longrightarrow> p mod a = 0"
  assume body: "(if n = 0 then Some (Inr (0, ar, h))
      else case alloc_loop (head ar) n a of
        Inl f \<Rightarrow> Some (Inl f)
      | Inr (p, blks) \<Rightarrow>
          if p \<noteq> 0 then Some (Inr (p, ar\<lparr>head := blks\<rparr>, h))
          else (case align_forward_size n a of
                  Inl f \<Rightarrow> Some (Inl f)
                | Inr new_cap \<Rightarrow>
                    (case arena_push_block (ar\<lparr>head := blks\<rparr>) h (grow_capacity new_cap) of
                       (ok, ar', h') \<Rightarrow>
                         if ok then f ar' h' n a
                         else Some (Inr (0, ar', h'))))) = Some r"
  show "\<forall>p ar' h'. r = Inr (p, ar', h') \<longrightarrow> p \<noteq> 0 \<longrightarrow> power_of_two a \<longrightarrow> p mod a = 0"
    using body IH
    by (auto split: sum.splits prod.splits if_splits dest: alloc_loop_aligned)
qed

subsection \<open>The queries and the reset loop\<close>

lemma block_count_loop_eq: "block_count_loop bs t = t + word_of_nat (length bs)"
  by (induction bs arbitrary: t) (simp_all add: algebra_simps)

lemma total_capacity_loop_eq: "total_capacity_loop bs t = t + sum_list (map capacity bs)"
  by (induction bs arbitrary: t) (simp_all add: algebra_simps)

lemma reset_loop_eq: "reset_loop cur rest = map (\<lambda>b. b\<lparr>offset := 0\<rparr>) (cur # rest)"
  by (induction cur rest rule: reset_loop.induct) simp_all

lemma arena_block_count_eq: "arena_block_count ar = word_of_nat (length (head ar))"
  by (simp add: arena_block_count_def block_count_loop_eq)

lemma arena_total_capacity_eq: "arena_total_capacity ar = sum_list (map capacity (head ar))"
  by (simp add: arena_total_capacity_def total_capacity_loop_eq)

subsection \<open>A block when the arithmetic does not wrap\<close>

lemma unat_cur:
  assumes "block_ok b"
  shows "unat (data b + offset b) = unat (data b) + unat (offset b)"
proof -
  have "unat (offset b) \<le> unat (capacity b)"
    using assms by (simp add: block_ok_def word_le_nat_alt)
  then have "unat (data b) + unat (offset b) < 2 ^ 64"
    using assms by (simp add: block_ok_def buffer_ok_def)
  then show ?thesis by (simp add: unat_add_lem[THEN iffD1])
qed

lemma unat_available:
  assumes "block_ok b"
  shows "unat (capacity b - offset b) = unat (capacity b) - unat (offset b)"
  using assms by (simp add: block_ok_def unat_sub)

lemma unat_required:
  assumes "a \<noteq> 0" and "unat n + unat a \<le> 2 ^ 64"
  shows "unat (pad_w cur a + n) = padding_to (unat cur) (unat a) + unat n"
proof -
  have "0 < unat a" using assms(1) by (simp add: unat_gt_0)
  then have "padding_to (unat cur) (unat a) < unat a" by (rule padding_to_less)
  then have "unat (pad_w cur a) + unat n < 2 ^ 64"
    using assms by (simp add: unat_pad_w)
  then have "unat (pad_w cur a + n) = unat (pad_w cur a) + unat n"
    by (simp add: unat_add_lem[THEN iffD1])
  then show ?thesis using assms(1) by (simp add: unat_pad_w)
qed

lemma block_rejects_fits:
  assumes "block_ok b" and "a \<noteq> 0" and "unat n + unat a \<le> 2 ^ 64"
  shows "block_rejects b n a \<longleftrightarrow> \<not> fits b n a"
  using assms
  by (simp add: block_rejects_iff fits_def word_less_nat_alt unat_required unat_available unat_cur
      not_le)

lemma fits_no_overflow:
  assumes "block_ok b" and "a \<noteq> 0" and "fits b n a"
  shows "unat n + unat a \<le> 2 ^ 64"
proof -
  define cur where "cur = unat (data b) + unat (offset b)"
  define pad where "pad = padding_to cur (unat a)"
  have pos: "0 < unat a" using assms(2) by (simp add: unat_gt_0)
  have le: "unat (offset b) \<le> unat (capacity b)"
    using assms(1) by (simp add: block_ok_def word_le_nat_alt)
  have "pad + unat n \<le> unat (capacity b) - unat (offset b)"
    using assms(3) by (simp add: fits_def pad_def cur_def)
  then have "cur + pad + unat n \<le> unat (data b) + unat (capacity b)"
    using le by (simp add: cur_def)
  then have top: "cur + pad + unat n < 2 ^ 64"
    using assms(1) by (simp add: block_ok_def buffer_ok_def)
  have "0 < unat (data b)" using assms(1) by (simp add: block_ok_def buffer_ok_def unat_gt_0)
  then have "0 < cur + pad" by (simp add: cur_def)
  moreover have "(cur + pad) mod unat a = 0"
    unfolding pad_def by (rule padding_to_aligned[OF pos])
  ultimately have "unat a \<le> cur + pad"
    by (metis dvd_imp_le mod_0_imp_dvd)
  then show ?thesis using top by linarith
qed

lemma block_alloc_fits:
  assumes "block_ok b" and "a \<noteq> 0" and "fits b n a"
  shows "\<exists>p. arena_block_alloc_raw b n a
           = Inr (p, b\<lparr>offset := offset b + (pad_w (data b + offset b) a + n)\<rparr>) \<and> p \<noteq> 0 \<and>
         unat p = unat (data b) + unat (offset b)
                  + padding_to (unat (data b) + unat (offset b)) (unat a) \<and>
         unat (offset b + (pad_w (data b + offset b) a + n))
           = unat (offset b) + padding_to (unat (data b) + unat (offset b)) (unat a) + unat n"
proof -
  define pad where "pad = padding_to (unat (data b) + unat (offset b)) (unat a)"
  have nov: "unat n + unat a \<le> 2 ^ 64" using assms by (rule fits_no_overflow)
  have acc: "\<not> block_rejects b n a"
    using assms nov by (simp add: block_rejects_fits)
  have le: "unat (offset b) \<le> unat (capacity b)"
    using assms(1) by (simp add: block_ok_def word_le_nat_alt)
  have f: "pad + unat n \<le> unat (capacity b) - unat (offset b)"
    using assms(3) by (simp add: fits_def pad_def)
  have top: "unat (data b) + unat (capacity b) < 2 ^ 64"
    using assms(1) by (simp add: block_ok_def buffer_ok_def)
  have r: "unat (pad_w (data b + offset b) a + n) = pad + unat n"
    using assms(1,2) nov by (simp add: unat_required unat_cur pad_def)
  have pw: "unat (pad_w (data b + offset b) a) = pad"
    using assms(1,2) by (simp add: unat_pad_w unat_cur pad_def)
  have "unat (data b + offset b) + unat (pad_w (data b + offset b) a) < 2 ^ 64"
    using f le top pw assms(1) by (simp add: unat_cur)
  then have p: "unat (data b + offset b + pad_w (data b + offset b) a)
      = unat (data b) + unat (offset b) + pad"
    using pw assms(1) by (simp add: unat_add_lem[THEN iffD1] unat_cur)
  have "0 < unat (data b)" using assms(1) by (simp add: block_ok_def buffer_ok_def unat_gt_0)
  then have "0 < unat (data b + offset b + pad_w (data b + offset b) a)" using p by simp
  then have pnz: "data b + offset b + pad_w (data b + offset b) a \<noteq> 0" by (simp add: unat_gt_0)
  have "unat (offset b) + unat (pad_w (data b + offset b) a + n) < 2 ^ 64"
    using r f le top by simp
  then have o: "unat (offset b + (pad_w (data b + offset b) a + n)) = unat (offset b) + pad + unat n"
    using r by (simp add: unat_add_lem[THEN iffD1])
  show ?thesis
    using acc pnz p o assms(2) by (simp add: block_alloc_unfold pad_def)
qed

lemma block_alloc_not_fits:
  assumes "block_ok b" and "a \<noteq> 0" and "unat n + unat a \<le> 2 ^ 64" and "\<not> fits b n a"
  shows "arena_block_alloc_raw b n a = Inr (0, b)"
  using assms by (simp add: block_alloc_unfold block_rejects_fits)

subsection \<open>The search loop, failed and single growth\<close>

lemma block_alloc_rejects:
  "a \<noteq> 0 \<Longrightarrow> block_rejects b n a \<Longrightarrow> arena_block_alloc_raw b n a = Inr (0, b)"
  by (simp add: block_alloc_unfold)

lemma alloc_loop_rejects:
  "a \<noteq> 0 \<Longrightarrow> \<forall>b\<in>set bs. block_rejects b n a \<Longrightarrow> alloc_loop bs n a = Inr (0, bs)"
  by (induction bs) (simp_all add: block_alloc_rejects)

lemma alloc_loop_first:
  assumes "a \<noteq> 0" and "\<forall>x\<in>set pre. block_rejects x n a"
    and "arena_block_alloc_raw b n a = Inr (p, b')" and "p \<noteq> 0"
  shows "alloc_loop (pre @ b # post) n a = Inr (p, pre @ b' # post)"
  using assms(2)
  by (induction pre) (simp_all add: block_alloc_rejects assms)

lemma head_update_same: "ar\<lparr>head := head ar\<rparr> = ar"
  by simp

lemma alloc_grow_fails:
  assumes "nbytes \<noteq> 0" and "alignment \<noteq> 0"
    and "\<forall>b\<in>set (head ar). block_rejects b nbytes alignment"
    and "align_forward_size nbytes alignment = Inr new_cap"
    and "mem_alloc ar h sizeof_ArenaBlock = (blk, h1)"
    and "mem_alloc ar h1 (grow_capacity new_cap) = (d, h2)"
    and "blk = 0 \<or> d = 0"
  shows "arena_alloc_raw ar h nbytes alignment
           = Some (Inr (0, ar, if blk = 0 then h1 else mem_free ar h2 blk))"
  using assms
  by (auto simp: arena_alloc_raw.simps alloc_loop_rejects arena_push_block_def arena_block_create_def)

lemma alloc_first_fit:
  assumes "nbytes \<noteq> 0" and "alignment \<noteq> 0"
    and "\<forall>x\<in>set (head ar). block_ok x"
    and "head ar = pre @ b # post"
    and "\<forall>x\<in>set pre. \<not> fits x nbytes alignment"
    and "fits b nbytes alignment"
  shows "\<exists>p. arena_alloc_raw ar h nbytes alignment
           = Some (Inr (p, ar\<lparr>head := pre @ b\<lparr>offset := offset b + (pad_w (data b + offset b) alignment + nbytes)\<rparr> # post\<rparr>, h)) \<and>
         p \<noteq> 0 \<and>
         unat p = unat (data b) + unat (offset b)
                  + padding_to (unat (data b) + unat (offset b)) (unat alignment) \<and>
         unat (offset b + (pad_w (data b + offset b) alignment + nbytes))
           = unat (offset b) + padding_to (unat (data b) + unat (offset b)) (unat alignment) + unat nbytes"
proof -
  have okb: "block_ok b" using assms(3,4) by simp
  have nov: "unat nbytes + unat alignment \<le> 2 ^ 64"
    using okb assms(2,6) by (rule fits_no_overflow)
  have rej: "\<forall>x\<in>set pre. block_rejects x nbytes alignment"
    using assms(2,3,4,5) nov by (simp add: block_rejects_fits)
  obtain p where p: "arena_block_alloc_raw b nbytes alignment
           = Inr (p, b\<lparr>offset := offset b + (pad_w (data b + offset b) alignment + nbytes)\<rparr>)"
      "p \<noteq> 0"
      "unat p = unat (data b) + unat (offset b)
                  + padding_to (unat (data b) + unat (offset b)) (unat alignment)"
      "unat (offset b + (pad_w (data b + offset b) alignment + nbytes))
           = unat (offset b) + padding_to (unat (data b) + unat (offset b)) (unat alignment) + unat nbytes"
    using block_alloc_fits[OF okb assms(2,6)] by blast
  have "alloc_loop (head ar) nbytes alignment
      = Inr (p, pre @ b\<lparr>offset := offset b + (pad_w (data b + offset b) alignment + nbytes)\<rparr> # post)"
    unfolding assms(4) using assms(2) rej p(1,2) by (rule alloc_loop_first)
  then have "arena_alloc_raw ar h nbytes alignment
           = Some (Inr (p, ar\<lparr>head := pre @ b\<lparr>offset := offset b + (pad_w (data b + offset b) alignment + nbytes)\<rparr> # post\<rparr>, h))"
    using assms(1) p(2) by (simp add: arena_alloc_raw.simps)
  then show ?thesis using p(2,3,4) by blast
qed

lemma unat_align_forward_size:
  assumes "a \<noteq> 0" and "unat n + unat a \<le> 2 ^ 64" and "n \<noteq> 0"
  shows "unat n \<le> unat (n + pad_w n a)"
proof -
  have "unat (pad_w n a + n) = padding_to (unat n) (unat a) + unat n"
    using assms(1,2) by (rule unat_required)
  then show ?thesis by (simp add: add.commute)
qed

lemma alloc_grow_once:
  assumes "nbytes \<noteq> 0" and "alignment \<noteq> 0"
    and "\<forall>b\<in>set (head ar). block_rejects b nbytes alignment"
    and "unat nbytes + unat alignment \<le> 2 ^ 64"
    and "align_forward_size nbytes alignment = Inr new_cap"
    and "new_cap \<le> grow_capacity new_cap"
    and "mem_alloc ar h sizeof_ArenaBlock = (blk, h1)" and "blk \<noteq> 0"
    and "mem_alloc ar h1 (grow_capacity new_cap) = (d, h2)" and "d \<noteq> 0"
    and "d mod alignment = 0"
  shows "arena_alloc_raw ar h nbytes alignment
           = Some (Inr (d, ar\<lparr>head := \<lparr>addr = blk, data = d, offset = nbytes,
                                          capacity = grow_capacity new_cap\<rparr> # head ar\<rparr>, h2))"
proof -
  define fresh where "fresh = \<lparr>addr = blk, data = d, offset = 0, capacity = grow_capacity new_cap\<rparr>"
  have nc: "new_cap = nbytes + pad_w nbytes alignment"
    using assms(2,5) by (simp add: align_forward_size_Inr)
  have "unat nbytes \<le> unat new_cap"
    unfolding nc using assms(2,4,1) by (rule unat_align_forward_size)
  then have le: "nbytes \<le> grow_capacity new_cap"
    using assms(6) by (simp add: word_le_nat_alt)
  have push: "arena_push_block ar h (grow_capacity new_cap) = (True, ar\<lparr>head := fresh # head ar\<rparr>, h2)"
    using assms(7-10) by (simp add: arena_push_block_def arena_block_create_def fresh_def)
  have pad: "pad_w d alignment = 0" using assms(11) by (simp add: pad_w_def)
  have acc: "\<not> block_rejects fresh nbytes alignment"
    using le assms(2) pad by (simp add: block_rejects_iff fresh_def not_less)
  have blk: "arena_block_alloc_raw fresh nbytes alignment = Inr (d, fresh\<lparr>offset := nbytes\<rparr>)"
    using acc assms(2) pad by (simp add: block_alloc_unfold fresh_def)
  have retry: "alloc_loop (fresh # head ar) nbytes alignment = Inr (d, fresh\<lparr>offset := nbytes\<rparr> # head ar)"
    using blk assms(10) by simp
  have first: "alloc_loop (head ar) nbytes alignment = Inr (0, head ar)"
    using assms(2,3) by (rule alloc_loop_rejects)
  have "arena_alloc_raw ar h nbytes alignment
      = arena_alloc_raw (ar\<lparr>head := fresh # head ar\<rparr>) h2 nbytes alignment"
    using assms(1,5) first push by (subst arena_alloc_raw.simps) simp
  also have "\<dots> = Some (Inr (d, ar\<lparr>head := fresh\<lparr>offset := nbytes\<rparr> # head ar\<rparr>, h2))"
    using assms(1,10) retry by (subst arena_alloc_raw.simps) simp
  finally show ?thesis by (simp add: fresh_def)
qed

lemma alloc_loop_advanced:
  "alloc_loop bs n a = Inr (p, bs') \<Longrightarrow> \<forall>b\<in>set bs. offset b \<le> capacity b \<Longrightarrow>
   list_all2 block_advanced bs bs' \<and> (\<forall>b\<in>set bs'. offset b \<le> capacity b)"
proof (induction bs arbitrary: p bs')
  case Nil then show ?case by simp
next
  case (Cons b bs)
  obtain q b' where q: "arena_block_alloc_raw b n a = Inr (q, b')"
    using Cons.prems(1) by (auto split: sum.splits)
  have ob: "offset b \<le> capacity b" using Cons.prems(2) by simp
  have adv: "block_advanced b b'" "offset b' \<le> capacity b'"
    using block_alloc_same_buffer[OF q] block_alloc_offset[OF q ob]
    by (simp_all add: block_advanced_def)
  have refl: "list_all2 block_advanced bs bs"
    by (simp add: list_all2_same block_advanced_def)
  show ?case
  proof (cases "q = 0")
    case False
    then have "bs' = b' # bs" using Cons.prems(1) q by simp
    then show ?thesis using adv refl Cons.prems(2) by simp
  next
    case True
    then obtain p' rest' where r: "alloc_loop bs n a = Inr (p', rest')" "bs' = b' # rest'"
      using Cons.prems(1) q by (auto split: sum.splits)
    have "list_all2 block_advanced bs rest' \<and> (\<forall>b\<in>set rest'. offset b \<le> capacity b)"
      using Cons.IH[OF r(1)] Cons.prems(2) by simp
    then show ?thesis using adv r(2) by simp
  qed
qed

subsection \<open>How a chain evolves\<close>

lemma block_advanced_refl: "block_advanced b b"
  by (simp add: block_advanced_def)

lemma block_advanced_trans: "block_advanced a b \<Longrightarrow> block_advanced b c \<Longrightarrow> block_advanced a c"
  by (auto simp: block_advanced_def)

lemma list_all2_advanced_trans:
  "list_all2 block_advanced xs ys \<Longrightarrow> list_all2 block_advanced ys zs \<Longrightarrow> list_all2 block_advanced xs zs"
  by (rule list_all2_trans[of block_advanced block_advanced block_advanced])
     (auto intro: block_advanced_trans)

lemma chain_extends_advanced: "list_all2 block_advanced bs bs' \<Longrightarrow> chain_extends bs bs'"
  unfolding chain_extends_def by (intro exI[of _ "[]"] exI[of _ bs']) simp

lemma chain_extends_refl: "chain_extends bs bs"
  by (rule chain_extends_advanced) (simp add: list_all2_same block_advanced_refl)

lemma chain_extends_tl: "chain_extends (b # bs) bs' \<Longrightarrow> chain_extends bs bs'"
proof -
  assume "chain_extends (b # bs) bs'"
  then obtain new olds where o: "bs' = new @ olds" "list_all2 block_advanced (b # bs) olds"
    unfolding chain_extends_def by blast
  then obtain b' olds' where "olds = b' # olds'" "list_all2 block_advanced bs olds'"
    by (auto simp: list_all2_Cons1)
  then have "bs' = (new @ [b']) @ olds'" "list_all2 block_advanced bs olds'" using o by simp_all
  then show ?thesis unfolding chain_extends_def by blast
qed

lemma chain_extends_trans:
  assumes "chain_extends xs ys" and "chain_extends ys zs"
  shows "chain_extends xs zs"
proof -
  obtain n1 o1 where 1: "ys = n1 @ o1" "list_all2 block_advanced xs o1"
    using assms(1) unfolding chain_extends_def by blast
  obtain n2 o2 where 2: "zs = n2 @ o2" "list_all2 block_advanced (n1 @ o1) o2"
    using assms(2) 1(1) unfolding chain_extends_def by blast
  from 2(2) obtain o2a o2b where 3: "o2 = o2a @ o2b" "list_all2 block_advanced o1 o2b"
    by (auto simp: list_all2_append1)
  have "zs = (n2 @ o2a) @ o2b" using 2(1) 3(1) by simp
  moreover have "list_all2 block_advanced xs o2b"
    using 1(2) 3(2) by (rule list_all2_advanced_trans)
  ultimately show ?thesis unfolding chain_extends_def by blast
qed

subsection \<open>Regions\<close>

lemma used_subset_buffer: "offset b \<le> capacity b \<Longrightarrow> used b \<subseteq> buffer b"
  by (auto simp: used_def buffer_def region_def word_le_nat_alt)

lemma block_advanced_used: "block_advanced b b' \<Longrightarrow> used b \<subseteq> used b'"
  by (auto simp: block_advanced_def used_def region_def word_le_nat_alt)

lemma block_advanced_buffer: "block_advanced b b' \<Longrightarrow> buffer b' = buffer b"
  by (simp add: block_advanced_def buffer_def)

lemma block_advanced_buffer_ok: "block_advanced b b' \<Longrightarrow> buffer_ok b' = buffer_ok b"
  by (simp add: block_advanced_def buffer_ok_def)

lemma advanced_set_buffers:
  "list_all2 block_advanced bs bs' \<Longrightarrow> buffer ` set bs = buffer ` set bs'"
  by (induction rule: list_all2_induct) (simp_all add: block_advanced_buffer)

lemma disjoint_buffers_iff:
  "disjoint_buffers (b # bs) \<longleftrightarrow> (\<forall>s\<in>buffer ` set bs. buffer b \<inter> s = {}) \<and> disjoint_buffers bs"
  by auto

lemma advanced_disjoint_buffers:
  "list_all2 block_advanced bs bs' \<Longrightarrow> disjoint_buffers bs' = disjoint_buffers bs"
proof (induction rule: list_all2_induct)
  case Nil then show ?case by simp
next
  case (Cons b bs b' bs')
  then show ?case
    unfolding disjoint_buffers_iff
    by (simp add: advanced_set_buffers[OF Cons.hyps(2)] block_advanced_buffer[OF Cons.hyps(1)])
qed

lemma advanced_buffers_ok:
  assumes "list_all2 block_advanced bs bs'"
  shows "buffers_ok bs' = buffers_ok bs"
proof -
  have "(\<forall>b\<in>set bs'. buffer_ok b) = (\<forall>b\<in>set bs. buffer_ok b)"
    using assms by (induction rule: list_all2_induct) (simp_all add: block_advanced_buffer_ok)
  then show ?thesis by (simp add: buffers_ok_def advanced_disjoint_buffers[OF assms])
qed

lemma disjoint_buffers_append: "disjoint_buffers (xs @ ys) \<Longrightarrow> disjoint_buffers ys"
  by (induction xs) simp_all

lemma buffers_ok_append: "buffers_ok (xs @ ys) \<Longrightarrow> buffers_ok ys"
  by (auto simp: buffers_ok_def dest: disjoint_buffers_append)

lemma chain_extends_buffers_ok:
  "chain_extends bs bs' \<Longrightarrow> buffers_ok bs' \<Longrightarrow> buffers_ok bs"
  unfolding chain_extends_def using advanced_buffers_ok buffers_ok_append by blast

lemma chain_extends_used:
  assumes "chain_extends bs bs'" and "x \<in> set bs"
  shows "\<exists>x'\<in>set bs'. used x \<subseteq> used x'"
proof -
  obtain new olds where o: "bs' = new @ olds" "list_all2 block_advanced bs olds"
    using assms(1) unfolding chain_extends_def by blast
  obtain i where i: "i < length bs" "x = bs ! i"
    using assms(2) by (auto simp: in_set_conv_nth)
  have "length olds = length bs" using o(2) by (simp add: list_all2_lengthD)
  then have "olds ! i \<in> set olds" "block_advanced x (olds ! i)"
    using i o(2) by (simp_all add: list_all2_nthD)
  then obtain x' where "x' \<in> set olds" "block_advanced x x'" by blast
  then show ?thesis using o(1) block_advanced_used by auto
qed

lemma block_alloc_region:
  assumes "block_ok b" and "unat n + unat a \<le> 2 ^ 64"
    and "arena_block_alloc_raw b n a = Inr (p, b')"
  shows "if p = 0 then b' = b
         else region p n \<subseteq> used b' \<and> region p n \<inter> used b = {}"
proof -
  have nz: "a \<noteq> 0" using assms(3) by (auto simp: block_alloc_zero_align)
  show ?thesis
  proof (cases "fits b n a")
    case False
    then show ?thesis using assms nz by (simp add: block_alloc_not_fits)
  next
    case True
    obtain q where q: "arena_block_alloc_raw b n a
           = Inr (q, b\<lparr>offset := offset b + (pad_w (data b + offset b) a + n)\<rparr>)" "q \<noteq> 0"
         "unat q = unat (data b) + unat (offset b)
                  + padding_to (unat (data b) + unat (offset b)) (unat a)"
         "unat (offset b + (pad_w (data b + offset b) a + n))
           = unat (offset b) + padding_to (unat (data b) + unat (offset b)) (unat a) + unat n"
      using block_alloc_fits[OF assms(1) nz True] by blast
    have eq: "p = q" "b' = b\<lparr>offset := offset b + (pad_w (data b + offset b) a + n)\<rparr>"
      using q(1) assms(3) by simp_all
    show ?thesis
      using q(2,3,4) unfolding eq by (auto simp: region_def used_def)
  qed
qed

lemma alloc_loop_region:
  assumes "alloc_loop bs n a = Inr (p, bs')" and "p \<noteq> 0"
    and "\<forall>b\<in>set bs. offset b \<le> capacity b" and "buffers_ok bs"
    and "unat n + unat a \<le> 2 ^ 64"
  shows "(\<exists>x\<in>set bs'. region p n \<subseteq> used x) \<and> (\<forall>x\<in>set bs. region p n \<inter> used x = {})"
  using assms(1,3,4)
proof (induction bs arbitrary: bs')
  case Nil then show ?case using assms(2) by simp
next
  case (Cons b bs)
  obtain q b' where q: "arena_block_alloc_raw b n a = Inr (q, b')"
    using Cons.prems(1) by (auto split: sum.splits)
  have okb: "block_ok b" using Cons.prems(2,3) by (simp add: block_ok_def buffers_ok_def)
  have ob: "offset b \<le> capacity b" using Cons.prems(2) by simp
  have dis: "\<forall>x\<in>set bs. buffer b \<inter> buffer x = {}"
    using Cons.prems(3) by (simp add: buffers_ok_def)
  have sub: "\<forall>x\<in>set bs. used x \<subseteq> buffer x"
    using Cons.prems(2) by (simp add: used_subset_buffer)
  note reg = block_alloc_region[OF okb assms(5) q]
  show ?case
  proof (cases "q = 0")
    case False
    then have eq: "bs' = b' # bs" "p = q" using Cons.prems(1) q by simp_all
    have r: "region p n \<subseteq> used b'" "region p n \<inter> used b = {}"
      using reg False eq by simp_all
    have "offset b' \<le> capacity b'" using block_alloc_offset[OF q ob] by simp
    then have "used b' \<subseteq> buffer b'" by (rule used_subset_buffer)
    moreover have "buffer b' = buffer b"
      using block_alloc_same_buffer[OF q] by (simp add: buffer_def)
    ultimately have "region p n \<subseteq> buffer b" using r(1) by simp
    then have "\<forall>x\<in>set bs. region p n \<inter> used x = {}" using dis sub by blast
    then show ?thesis using r eq by simp
  next
    case True
    then have same: "b' = b" using reg by simp
    obtain rest' where r: "alloc_loop bs n a = Inr (p, rest')" "bs' = b # rest'"
      using Cons.prems(1) q True same by (auto split: sum.splits)
    have okr: "buffers_ok bs" using Cons.prems(3) by (simp add: buffers_ok_def)
    have IH: "(\<exists>x\<in>set rest'. region p n \<subseteq> used x)" "(\<forall>x\<in>set bs. region p n \<inter> used x = {})"
      using Cons.IH[OF r(1)] Cons.prems(2) okr by simp_all
    have adv: "list_all2 block_advanced bs rest'" "\<forall>b\<in>set rest'. offset b \<le> capacity b"
      using alloc_loop_advanced[OF r(1)] Cons.prems(2) by simp_all
    obtain x' where x': "x' \<in> set rest'" "region p n \<subseteq> used x'" using IH(1) by blast
    have "used x' \<subseteq> buffer x'" using adv(2) x'(1) by (simp add: used_subset_buffer)
    moreover have "buffer x' \<in> buffer ` set bs"
      using advanced_set_buffers[OF adv(1)] x'(1) by blast
    ultimately have "region p n \<inter> buffer b = {}" using dis x'(2) by blast
    then have "region p n \<inter> used b = {}" using used_subset_buffer[OF ob] by blast
    then show ?thesis using IH r(2) by simp
  qed
qed

lemma arena_alloc_raw_step:
  assumes "arena_alloc_raw ar h n a = Some r"
  shows "\<forall>p ar' h'. r = Inr (p, ar', h') \<longrightarrow> (\<forall>b\<in>set (head ar). offset b \<le> capacity b) \<longrightarrow>
           (\<forall>b\<in>set (head ar'). offset b \<le> capacity b) \<and> chain_extends (head ar) (head ar') \<and>
           (buffers_ok (head ar') \<longrightarrow> unat n + unat a \<le> 2 ^ 64 \<longrightarrow> p \<noteq> 0 \<longrightarrow>
              (\<exists>x\<in>set (head ar'). region p n \<subseteq> used x) \<and>
              (\<forall>x\<in>set (head ar). region p n \<inter> used x = {}))"
proof (rule arena_alloc_raw.raw_induct
    [where P = "\<lambda>ar h n a r. \<forall>p ar' h'. r = Inr (p, ar', h') \<longrightarrow>
           (\<forall>b\<in>set (head ar). offset b \<le> capacity b) \<longrightarrow>
           (\<forall>b\<in>set (head ar'). offset b \<le> capacity b) \<and> chain_extends (head ar) (head ar') \<and>
           (buffers_ok (head ar') \<longrightarrow> unat n + unat a \<le> 2 ^ 64 \<longrightarrow> p \<noteq> 0 \<longrightarrow>
              (\<exists>x\<in>set (head ar'). region p n \<subseteq> used x) \<and>
              (\<forall>x\<in>set (head ar). region p n \<inter> used x = {}))",
     OF _ assms])
  fix f :: "'a ArenaAllocator \<Rightarrow> 'a \<Rightarrow> 64 word \<Rightarrow> 64 word \<Rightarrow> (fault + 64 word \<times> 'a ArenaAllocator \<times> 'a) option"
  fix ar h n a r
  assume IH: "\<And>ar h n a r. f ar h n a = Some r \<Longrightarrow>
     \<forall>p ar' h'. r = Inr (p, ar', h') \<longrightarrow> (\<forall>b\<in>set (head ar). offset b \<le> capacity b) \<longrightarrow>
           (\<forall>b\<in>set (head ar'). offset b \<le> capacity b) \<and> chain_extends (head ar) (head ar') \<and>
           (buffers_ok (head ar') \<longrightarrow> unat n + unat a \<le> 2 ^ 64 \<longrightarrow> p \<noteq> 0 \<longrightarrow>
              (\<exists>x\<in>set (head ar'). region p n \<subseteq> used x) \<and>
              (\<forall>x\<in>set (head ar). region p n \<inter> used x = {}))"
  assume body: "(if n = 0 then Some (Inr (0, ar, h))
      else case alloc_loop (head ar) n a of
        Inl f \<Rightarrow> Some (Inl f)
      | Inr (p, blks) \<Rightarrow>
          if p \<noteq> 0 then Some (Inr (p, ar\<lparr>head := blks\<rparr>, h))
          else (case align_forward_size n a of
                  Inl f \<Rightarrow> Some (Inl f)
                | Inr new_cap \<Rightarrow>
                    (case arena_push_block (ar\<lparr>head := blks\<rparr>) h (grow_capacity new_cap) of
                       (ok, ar', h') \<Rightarrow>
                         if ok then f ar' h' n a
                         else Some (Inr (0, ar', h'))))) = Some r"
  show "\<forall>p ar' h'. r = Inr (p, ar', h') \<longrightarrow> (\<forall>b\<in>set (head ar). offset b \<le> capacity b) \<longrightarrow>
           (\<forall>b\<in>set (head ar'). offset b \<le> capacity b) \<and> chain_extends (head ar) (head ar') \<and>
           (buffers_ok (head ar') \<longrightarrow> unat n + unat a \<le> 2 ^ 64 \<longrightarrow> p \<noteq> 0 \<longrightarrow>
              (\<exists>x\<in>set (head ar'). region p n \<subseteq> used x) \<and>
              (\<forall>x\<in>set (head ar). region p n \<inter> used x = {}))"
  proof (intro allI impI)
    fix p ar' h'
    assume r: "r = Inr (p, ar', h')" and ok: "\<forall>b\<in>set (head ar). offset b \<le> capacity b"
    show "(\<forall>b\<in>set (head ar'). offset b \<le> capacity b) \<and> chain_extends (head ar) (head ar') \<and>
           (buffers_ok (head ar') \<longrightarrow> unat n + unat a \<le> 2 ^ 64 \<longrightarrow> p \<noteq> 0 \<longrightarrow>
              (\<exists>x\<in>set (head ar'). region p n \<subseteq> used x) \<and>
              (\<forall>x\<in>set (head ar). region p n \<inter> used x = {}))"
    proof (cases "n = 0")
      case True
      then have "ar' = ar" "p = 0" using body r by simp_all
      then show ?thesis using ok by (simp add: chain_extends_refl)
    next
      case nz: False
      then obtain q blks where loop: "alloc_loop (head ar) n a = Inr (q, blks)"
        using body r by (auto split: sum.splits)
      have adv: "list_all2 block_advanced (head ar) blks" "\<forall>b\<in>set blks. offset b \<le> capacity b"
        using alloc_loop_advanced[OF loop ok] by simp_all
      show ?thesis
      proof (cases "q = 0")
        case False
        then have eq: "ar' = ar\<lparr>head := blks\<rparr>" "p = q" using body r nz loop by simp_all
        have "buffers_ok blks \<Longrightarrow> unat n + unat a \<le> 2 ^ 64 \<Longrightarrow>
              (\<exists>x\<in>set blks. region q n \<subseteq> used x) \<and>
              (\<forall>x\<in>set (head ar). region q n \<inter> used x = {})"
          using alloc_loop_region[OF loop False ok] advanced_buffers_ok[OF adv(1)] by simp
        then show ?thesis using adv eq by (simp add: chain_extends_advanced)
      next
        case True
        then obtain new_cap where nc: "align_forward_size n a = Inr new_cap"
          using body r nz loop by (auto split: sum.splits)
        obtain okp ar1 h1 where push:
          "arena_push_block (ar\<lparr>head := blks\<rparr>) h (grow_capacity new_cap) = (okp, ar1, h1)"
          by (cases "arena_push_block (ar\<lparr>head := blks\<rparr>) h (grow_capacity new_cap)") auto
        show ?thesis
        proof (cases okp)
          case False
          then have "ar' = ar1" "p = 0" using body r nz loop True nc push by simp_all
          moreover have "head ar1 = blks"
            using push False by (auto simp: arena_push_block_def split: prod.splits option.splits)
          ultimately show ?thesis using adv by (simp add: chain_extends_advanced)
        next
          case okT: True
          then have rec: "f ar1 h1 n a = Some r" using body nz loop True nc push by simp
          obtain fresh where fresh: "head ar1 = fresh # blks" "offset fresh = 0"
            using push okT
            by (auto simp: arena_push_block_def arena_block_create_def
                split: prod.splits option.splits if_splits)
          have ok1: "\<forall>b\<in>set (head ar1). offset b \<le> capacity b"
            using fresh adv(2) by simp
          have res: "(\<forall>b\<in>set (head ar'). offset b \<le> capacity b)" "chain_extends (head ar1) (head ar')"
            "buffers_ok (head ar') \<Longrightarrow> unat n + unat a \<le> 2 ^ 64 \<Longrightarrow> p \<noteq> 0 \<Longrightarrow>
              (\<exists>x\<in>set (head ar'). region p n \<subseteq> used x) \<and>
              (\<forall>x\<in>set (head ar1). region p n \<inter> used x = {})"
            using IH[OF rec] r ok1 by blast+
          have "chain_extends blks (head ar')"
            using res(2) unfolding fresh(1) by (rule chain_extends_tl)
          then have ext: "chain_extends (head ar) (head ar')"
            using chain_extends_advanced[OF adv(1)] chain_extends_trans by blast
          have "\<forall>x\<in>set (head ar). \<exists>x'\<in>set (head ar1). used x \<subseteq> used x'"
            using chain_extends_used[OF chain_extends_advanced[OF adv(1)]] fresh(1) by auto
          then have "buffers_ok (head ar') \<Longrightarrow> unat n + unat a \<le> 2 ^ 64 \<Longrightarrow> p \<noteq> 0 \<Longrightarrow>
              (\<forall>x\<in>set (head ar). region p n \<inter> used x = {})"
            using res(3) by blast
          then show ?thesis using res ext by blast
        qed
      qed
    qed
  qed
qed

lemma arena_alloc_raw_inv:
  assumes "arena_alloc_raw ar h n a = Some (Inr (p, ar', h'))"
    and "\<forall>b\<in>set (head ar). offset b \<le> capacity b"
  shows "\<forall>b\<in>set (head ar'). offset b \<le> capacity b" and "chain_extends (head ar) (head ar')"
    and "buffers_ok (head ar') \<Longrightarrow> unat n + unat a \<le> 2 ^ 64 \<Longrightarrow> p \<noteq> 0 \<Longrightarrow>
           (\<exists>x\<in>set (head ar'). region p n \<subseteq> used x) \<and>
           (\<forall>x\<in>set (head ar). region p n \<inter> used x = {})"
  using arena_alloc_raw_step[OF assms(1)] assms(2) by blast+

lemma alloc_calls_disjoint:
  assumes "alloc_calls ar h reqs = Some (Inr (rs, ar', h'))"
    and "\<forall>b\<in>set (head ar). offset b \<le> capacity b"
    and "buffers_ok (head ar')"
    and "\<forall>req\<in>set reqs. unat (fst req) + unat (snd req) \<le> 2 ^ 64"
  shows "(\<forall>b\<in>set (head ar'). offset b \<le> capacity b) \<and> chain_extends (head ar) (head ar') \<and>
         disjoint_regions (filter (\<lambda>r. fst r \<noteq> 0) rs) \<and>
         (\<forall>r\<in>set rs. fst r \<noteq> 0 \<longrightarrow>
            (\<exists>x\<in>set (head ar'). region (fst r) (snd r) \<subseteq> used x) \<and>
            (\<forall>x\<in>set (head ar). region (fst r) (snd r) \<inter> used x = {}))"
  using assms
proof (induction reqs arbitrary: ar h rs)
  case Nil
  then show ?case by (simp add: chain_extends_refl)
next
  case (Cons req reqs)
  obtain p ar1 h1 where first: "arena_alloc_raw ar h (fst req) (snd req) = Some (Inr (p, ar1, h1))"
    using Cons.prems(1) by (auto split: option.splits sum.splits)
  obtain rs' where rest: "alloc_calls ar1 h1 reqs = Some (Inr (rs', ar', h'))"
      and rs: "rs = (p, fst req) # rs'"
    using Cons.prems(1) first by (auto split: option.splits sum.splits)
  note step = arena_alloc_raw_inv[OF first Cons.prems(2)]
  have ok1: "\<forall>b\<in>set (head ar1). offset b \<le> capacity b" and ext1: "chain_extends (head ar) (head ar1)"
    using step(1,2) by simp_all
  have nov: "\<forall>req\<in>set reqs. unat (fst req) + unat (snd req) \<le> 2 ^ 64"
    and nov1: "unat (fst req) + unat (snd req) \<le> 2 ^ 64"
    using Cons.prems(4) by simp_all
  note IH = Cons.IH[OF rest ok1 Cons.prems(3) nov]
  have ok': "\<forall>b\<in>set (head ar'). offset b \<le> capacity b"
    and ext': "chain_extends (head ar1) (head ar')"
    and dis': "disjoint_regions (filter (\<lambda>r. fst r \<noteq> 0) rs')"
    and reg': "\<forall>r\<in>set rs'. fst r \<noteq> 0 \<longrightarrow>
            (\<exists>x\<in>set (head ar'). region (fst r) (snd r) \<subseteq> used x) \<and>
            (\<forall>x\<in>set (head ar1). region (fst r) (snd r) \<inter> used x = {})"
    using IH by simp_all
  have ext: "chain_extends (head ar) (head ar')"
    using ext1 ext' by (rule chain_extends_trans)
  have bok1: "buffers_ok (head ar1)"
    using ext' Cons.prems(3) by (rule chain_extends_buffers_ok)
  have old: "\<forall>r\<in>set rs'. fst r \<noteq> 0 \<longrightarrow> (\<forall>x\<in>set (head ar). region (fst r) (snd r) \<inter> used x = {})"
  proof (intro ballI impI)
    fix r x assume r: "r \<in> set rs'" "fst r \<noteq> 0" and x: "x \<in> set (head ar)"
    obtain x1 where "x1 \<in> set (head ar1)" "used x \<subseteq> used x1"
      using chain_extends_used[OF ext1 x] by blast
    then show "region (fst r) (snd r) \<inter> used x = {}" using reg' r by blast
  qed
  show ?case
  proof (cases "p = 0")
    case True
    then show ?thesis using ok' ext dis' reg' old rs by simp
  next
    case False
    have r1: "\<exists>x\<in>set (head ar1). region p (fst req) \<subseteq> used x"
      "\<forall>x\<in>set (head ar). region p (fst req) \<inter> used x = {}"
      using step(3)[OF bok1 nov1 False] by simp_all
    then obtain x1 where x1: "x1 \<in> set (head ar1)" "region p (fst req) \<subseteq> used x1" by blast
    have later: "\<forall>r\<in>set rs'. fst r \<noteq> 0 \<longrightarrow> region p (fst req) \<inter> region (fst r) (snd r) = {}"
      using reg' x1 by blast
    obtain x' where "x' \<in> set (head ar')" "used x1 \<subseteq> used x'"
      using chain_extends_used[OF ext' x1(1)] by blast
    then have fin: "\<exists>x\<in>set (head ar'). region p (fst req) \<subseteq> used x" using x1(2) by blast
    show ?thesis using ok' ext dis' reg' old rs False later fin r1(2) by simp
  qed
qed

subsection \<open>The growth factor\<close>

lemma round_to_53_bounds:
  "n - n div 2 ^ 52 \<le> round_to_53 n \<and> round_to_53 n \<le> n + n div 2 ^ 52"
proof (cases "n < 2 ^ 53")
  case True
  then show ?thesis by (simp add: round_to_53_def)
next
  case False
  define s where "s = floorlog 2 n - 53"
  define q where "q = n div 2 ^ s"
  define r where "r = n mod 2 ^ s"
  have pos: "0 < n" using False by (cases "n = 0") simp_all
  have b: "2 ^ (floorlog 2 n - 1) \<le> n" "n < 2 ^ floorlog 2 n"
    using floorlog_bounds[of n 2] pos by simp_all
  have "(2::nat) ^ 53 < 2 ^ floorlog 2 n" using False b(2) by linarith
  then have "53 < floorlog 2 n" by (simp only: power_strict_increasing_iff)
  then have fl: "floorlog 2 n - 1 = s + 52" by (simp add: s_def)
  have "(2::nat) ^ s * 2 ^ 52 \<le> n" using b(1) unfolding fl by (simp add: power_add)
  then have s: "2 ^ s \<le> n div 2 ^ 52"
    by (simp add: less_eq_div_iff_mult_less_eq)
  have n: "n = q * 2 ^ s + r" unfolding q_def r_def by (rule div_mult_mod_eq[symmetric])
  have r: "r < 2 ^ s" by (simp add: r_def)
  have val: "round_to_53 n = (if 2 ^ s < 2 * r \<or> (2 * r = 2 ^ s \<and> odd q) then q + 1 else q) * 2 ^ s"
    using False by (simp add: round_to_53_def Let_def s_def q_def r_def)
  have lo: "q * 2 ^ s \<le> round_to_53 n" unfolding val by simp
  have hi: "round_to_53 n \<le> q * 2 ^ s + 2 ^ s" unfolding val by (simp add: algebra_simps)
  have "n - 2 ^ s \<le> q * 2 ^ s" using n r by linarith
  then have "n - n div 2 ^ 52 \<le> round_to_53 n" using lo s by linarith
  moreover have "round_to_53 n \<le> n + n div 2 ^ 52" using hi n s by linarith
  ultimately show ?thesis by simp
qed

lemma grow_capacity_ge:
  assumes "unat c < 2 ^ 53"
  shows "c \<le> grow_capacity c"
proof -
  define x where "x = unat c"
  define N where "N = x * ARENA_GROW_FACTOR"
  have x: "x < 2 ^ 53" using assms by (simp add: x_def)
  have rx: "round_to_53 x = x" using x by (simp add: round_to_53_def)
  have d: "N div 2 ^ 52 \<le> 2 * x"
  proof -
    have "N \<le> (2 * x) * 2 ^ 52" by (simp add: N_def ARENA_GROW_FACTOR_def)
    then have "N div 2 ^ 52 \<le> ((2 * x) * 2 ^ 52) div 2 ^ 52" by (rule div_le_mono)
    then show ?thesis by simp
  qed
  have lo: "x * 2 ^ 52 \<le> round_to_53 N"
  proof -
    have "x * 2 ^ 52 + 2 * x \<le> N" by (simp add: N_def ARENA_GROW_FACTOR_def)
    then have "x * 2 ^ 52 \<le> N - N div 2 ^ 52" using d by linarith
    then show ?thesis using round_to_53_bounds[of N] by linarith
  qed
  have hi: "round_to_53 N < 2 ^ 64 * 2 ^ 52"
  proof -
    have "N + 2 * x \<le> x * 2 ^ 53" by (simp add: N_def ARENA_GROW_FACTOR_def)
    moreover have "x * 2 ^ 53 < 2 ^ 53 * 2 ^ 53" using x by simp
    ultimately have "N + N div 2 ^ 52 < 2 ^ 64 * 2 ^ 52" using d by simp
    then show ?thesis using round_to_53_bounds[of N] by linarith
  qed
  have ge: "x \<le> round_to_53 N div 2 ^ 52"
    using lo by (simp add: less_eq_div_iff_mult_less_eq)
  have lt: "round_to_53 N div 2 ^ 52 < 2 ^ 64"
    using hi by (simp add: less_mult_imp_div_less)
  have "unat (grow_capacity c) = (round_to_53 N div 2 ^ 52) mod 2 ^ 64"
    by (simp add: grow_capacity_def rx[unfolded x_def] N_def x_def unat_of_nat)
  then have "unat (grow_capacity c) = round_to_53 N div 2 ^ 52"
    using lt by (simp only: mod_less)
  then show ?thesis using ge by (simp add: word_le_nat_alt x_def)
qed

lemma grow_capacity_4: "grow_capacity 4 = 4"
  by (simp add: grow_capacity_def round_to_53_def ARENA_GROW_FACTOR_def compute_floorlog Let_def)

lemma grow_capacity_32: "grow_capacity 32 = 36"
  by (simp add: grow_capacity_def round_to_53_def ARENA_GROW_FACTOR_def compute_floorlog Let_def)

subsection \<open>Evaluation on concrete arenas\<close>

lemmas eval_alloc =
  arena_alloc_raw.simps scripted_arena_def scripted_alloc_def scripted_free_def
  arena_block_alloc_raw_def arena_block_get_required_def align_forward_ptr_def
  align_forward_size_def arena_push_block_def arena_block_create_def sizeof_ArenaBlock_def
  Let_def

lemmas eval_block_ok =
  block_ok_def buffer_ok_def fits_def padding_to_def block_rejects_def
  arena_block_get_required_def align_forward_ptr_def Let_def

section \<open>The claims\<close>

subsection \<open>C1: alignment of the returned address\<close>

text \<open>
  C1. Whenever \<^verbatim>\<open>arena_alloc_raw\<close>, called with a size above zero and an alignment that is
  a power of two, returns a pointer that is not null, the address returned is a
  multiple of the alignment. This holds on every arena and for every size, also where
  the arithmetic wraps around.
\<close>

theorem alloc_result_aligned:
  assumes "0 < nbytes" and "power_of_two alignment"
    and "arena_alloc_raw ar h nbytes alignment = Some (Inr (p, ar', h'))" and "p \<noteq> 0"
  shows "unat p mod unat alignment = 0"
proof -
  have "p mod alignment = 0"
    using arena_alloc_raw_aligned[OF assms(3)] assms(2,4) by blast
  then have "unat (p mod alignment) = 0" by simp
  then show ?thesis by (simp add: unat_mod)
qed

theorem alloc_result_aligned_witness:
  "0 < (4 :: size_t) \<and> power_of_two 8 \<and>
   arena_alloc_raw (scripted_arena [\<lparr>addr = 16, data = 4096, offset = 1, capacity = 200\<rparr>]) [] 4 8
     = Some (Inr (4104, scripted_arena [\<lparr>addr = 16, data = 4096, offset = 12, capacity = 200\<rparr>], [])) \<and>
   (4104 :: uintptr_t) \<noteq> 0 \<and> unat (4104 :: uintptr_t) mod unat (8 :: size_t) = 0"
proof -
  have h1: "0 < (4 :: size_t)" by simp
  have "unat (8 :: size_t) = 2 ^ 3" by simp
  then have h2: "power_of_two 8" unfolding power_of_two_def by (intro exI[of _ 3]) simp
  have h3: "arena_alloc_raw (scripted_arena [\<lparr>addr = 16, data = 4096, offset = 1, capacity = 200\<rparr>]) [] 4 8
     = Some (Inr (4104, scripted_arena [\<lparr>addr = 16, data = 4096, offset = 12, capacity = 200\<rparr>], []))"
    by (simp add: eval_alloc)
  have h4: "(4104 :: uintptr_t) \<noteq> 0" by simp
  show ?thesis using alloc_result_aligned[OF h1 h2 h3 h4] h1 h2 h3 h4 by simp
qed

subsection \<open>C2: the regions returned do not overlap\<close>

text \<open>
  C2, as the code has it. Take a sequence of calls of \<^verbatim>\<open>arena_alloc_raw\<close> on one arena
  that starts with every offset within its capacity (after creation, after a reset,
  or after earlier calls), where for every call the size plus the alignment is at
  most \<open>2 ^ 64\<close>, so that padding plus size cannot wrap, and where the buffers the
  host handed out, those of the blocks in the chain at the end, are not null, end
  below the top of the address space and are pairwise disjoint. Then the regions
  \<open>[p, p + nbytes)\<close> of the calls that returned a pointer \<open>p\<close> that is not null are
  pairwise disjoint.
\<close>

theorem alloc_regions_disjoint:
  assumes "alloc_calls ar h reqs = Some (Inr (rs, ar', h'))"
    and "\<forall>b\<in>set (head ar). offset b \<le> capacity b"
    and "buffers_ok (head ar')"
    and "\<forall>req\<in>set reqs. unat (fst req) + unat (snd req) \<le> 2 ^ 64"
  shows "disjoint_regions (filter (\<lambda>r. fst r \<noteq> 0) rs)"
  using alloc_calls_disjoint[OF assms] by simp

theorem alloc_regions_disjoint_witness:
  "alloc_calls (scripted_arena [\<lparr>addr = 16, data = 4096, offset = 0, capacity = 200\<rparr>]) [32, 8192]
       [(196, 4), (4, 4), (4, 4)]
     = Some (Inr ([(4096, 196), (4292, 4), (8192, 4)],
         scripted_arena [\<lparr>addr = 32, data = 8192, offset = 4, capacity = 4\<rparr>,
                         \<lparr>addr = 16, data = 4096, offset = 200, capacity = 200\<rparr>], [])) \<and>
   buffers_ok [\<lparr>addr = 32, data = 8192, offset = 4, capacity = 4\<rparr>,
               \<lparr>addr = 16, data = 4096, offset = 200, capacity = 200\<rparr>] \<and>
   disjoint_regions [(4096, 196), (4292, 4), (8192, 4)]"
proof -
  let ?ar = "scripted_arena [\<lparr>addr = 16, data = 4096, offset = 0, capacity = 200\<rparr>]"
  let ?ar' = "scripted_arena [\<lparr>addr = 32, data = 8192, offset = 4, capacity = 4\<rparr>,
                         \<lparr>addr = 16, data = 4096, offset = 200, capacity = 200\<rparr>]"
  have h1: "alloc_calls ?ar [32, 8192] [(196, 4), (4, 4), (4, 4)]
     = Some (Inr ([(4096, 196), (4292, 4), (8192, 4)], ?ar', []))"
    by (simp add: eval_alloc grow_capacity_4)
  have h2: "\<forall>b\<in>set (head ?ar). offset b \<le> capacity b" by (simp add: scripted_arena_def)
  have ok: "buffers_ok [\<lparr>addr = 32, data = 8192, offset = 4, capacity = 4\<rparr>,
               \<lparr>addr = 16, data = 4096, offset = 200, capacity = 200\<rparr>]"
    by (simp add: buffers_ok_def buffer_ok_def buffer_def region_def)
  then have h3: "buffers_ok (head ?ar')" by (simp add: scripted_arena_def)
  have h4: "\<forall>req\<in>set [(196, 4), (4, 4), (4 :: size_t, 4 :: size_t)].
      unat (fst req) + unat (snd req) \<le> 2 ^ 64"
    by simp
  show ?thesis using alloc_regions_disjoint[OF h1 h2 h3 h4] h1 ok by simp
qed

text \<open>
  C2 as the specification has it fails. On a block of 200 bytes at address 4096, three
  calls succeed: 1 byte aligned to 1, then \<open>2 ^ 64 - 7\<close> bytes aligned to 8, for which
  padding plus size wraps to 0, then 8 bytes aligned to 8. The second and the third
  call both return the address 4104.
\<close>

theorem alloc_regions_overlap:
  "alloc_calls (scripted_arena [\<lparr>addr = 16, data = 4096, offset = 0, capacity = 200\<rparr>]) []
       [(1, 1), (18446744073709551609, 8), (8, 8)]
     = Some (Inr ([(4096, 1), (4104, 18446744073709551609), (4104, 8)],
         scripted_arena [\<lparr>addr = 16, data = 4096, offset = 16, capacity = 200\<rparr>], [])) \<and>
   \<not> disjoint_regions [(4096, 1), (4104, 18446744073709551609), (4104, 8)]"
proof -
  have "4104 \<in> region 4104 18446744073709551609 \<inter> region 4104 8"
    by (simp add: region_def)
  then have "\<not> disjoint_regions [(4096, 1), (4104, 18446744073709551609), (4104, 8)]"
    by auto
  moreover have "alloc_calls (scripted_arena [\<lparr>addr = 16, data = 4096, offset = 0, capacity = 200\<rparr>]) []
       [(1, 1), (18446744073709551609, 8), (8, 8)]
     = Some (Inr ([(4096, 1), (4104, 18446744073709551609), (4104, 8)],
         scripted_arena [\<lparr>addr = 16, data = 4096, offset = 16, capacity = 200\<rparr>], []))"
    by (simp add: eval_alloc)
  ultimately show ?thesis by simp
qed

subsection \<open>C3: growth\<close>

text \<open>
  C3, as the code has it. When every block of the chain rejects the request and the
  host hands out a block record and a buffer, \<^verbatim>\<open>arena_alloc_raw\<close> links one new block of
  capacity \<^verbatim>\<open>(size_t)(align_forward_size(nbytes, alignment) * 1.15)\<close> as the new head and
  calls itself again. That second search is served by the new block, at the start of
  its buffer and with no further growth, when the buffer's address is a multiple of
  the alignment, the size plus the alignment is at most \<open>2 ^ 64\<close> and the product with
  the growth factor is not below the capacity it started from (\<open>grow_capacity_ge\<close>:
  true of every capacity below \<open>2 ^ 53\<close>).
\<close>

theorem alloc_single_growth:
  assumes "nbytes \<noteq> 0" and "alignment \<noteq> 0"
    and "\<forall>b\<in>set (head ar). block_rejects b nbytes alignment"
    and "unat nbytes + unat alignment \<le> 2 ^ 64"
    and "align_forward_size nbytes alignment = Inr new_cap"
    and "new_cap \<le> grow_capacity new_cap"
    and "mem_alloc ar h sizeof_ArenaBlock = (blk, h1)" and "blk \<noteq> 0"
    and "mem_alloc ar h1 (grow_capacity new_cap) = (d, h2)" and "d \<noteq> 0"
    and "d mod alignment = 0"
  shows "arena_alloc_raw ar h nbytes alignment
           = Some (Inr (d, ar\<lparr>head := \<lparr>addr = blk, data = d, offset = nbytes,
                                          capacity = grow_capacity new_cap\<rparr> # head ar\<rparr>, h2))"
  using assms by (rule alloc_grow_once)

theorem alloc_single_growth_witness:
  "arena_alloc_raw (scripted_arena [\<lparr>addr = 16, data = 4096, offset = 200, capacity = 200\<rparr>])
       [32, 8192] 4 4
     = Some (Inr (8192,
         scripted_arena [\<lparr>addr = 32, data = 8192, offset = 4, capacity = 4\<rparr>,
                         \<lparr>addr = 16, data = 4096, offset = 200, capacity = 200\<rparr>], [])) \<and>
   block_rejects \<lparr>addr = 16, data = 4096, offset = 200, capacity = 200\<rparr> 4 4 \<and>
   grow_capacity 4 = 4 \<and> (8192 :: uintptr_t) mod 4 = 0"
proof -
  let ?ar = "scripted_arena [\<lparr>addr = 16, data = 4096, offset = 200, capacity = 200\<rparr>]"
  have h1: "(4 :: size_t) \<noteq> 0" by simp
  have rej: "block_rejects \<lparr>addr = 16, data = 4096, offset = 200, capacity = 200\<rparr> 4 4"
    by (simp add: eval_block_ok)
  then have h3: "\<forall>b\<in>set (head ?ar). block_rejects b 4 4" by (simp add: scripted_arena_def)
  have h4: "unat (4 :: size_t) + unat (4 :: size_t) \<le> 2 ^ 64" by simp
  have h5: "align_forward_size 4 4 = Inr (4 :: size_t)" by (simp add: align_forward_size_def)
  have h6: "(4 :: size_t) \<le> grow_capacity 4" by (simp add: grow_capacity_4)
  have h7: "mem_alloc ?ar [32, 8192] sizeof_ArenaBlock = (32, [8192])"
    and h9: "mem_alloc ?ar [8192] (grow_capacity 4) = (8192, [])"
    by (simp_all add: scripted_arena_def scripted_alloc_def)
  have h8: "(32 :: uintptr_t) \<noteq> 0" and h10: "(8192 :: uintptr_t) \<noteq> 0"
    and h11: "(8192 :: uintptr_t) mod 4 = 0" by simp_all
  show ?thesis
    using alloc_single_growth[OF h1 h1 h3 h4 h5 h6 h7 h8 h9 h10 h11] rej h11
    by (simp add: scripted_arena_def grow_capacity_4)
qed

text \<open>
  C3 as the specification has it fails: the retry is not bound to succeed, and one call
  can grow more than once. A request of 32 bytes aligned to 32 on a full arena makes a
  block of capacity 36; the host puts its buffer at 8208, a multiple of 16 only, so
  the request needs 16 bytes of padding and 48 bytes in all, the new block rejects it
  and the call pushes a second block.
\<close>

theorem alloc_grows_twice:
  "arena_alloc_raw (scripted_arena [\<lparr>addr = 16, data = 4096, offset = 200, capacity = 200\<rparr>])
       [32, 8208, 64, 12288] 32 32
     = Some (Inr (12288,
         scripted_arena [\<lparr>addr = 64, data = 12288, offset = 32, capacity = 36\<rparr>,
                         \<lparr>addr = 32, data = 8208, offset = 0, capacity = 36\<rparr>,
                         \<lparr>addr = 16, data = 4096, offset = 200, capacity = 200\<rparr>], [])) \<and>
   arena_block_count (scripted_arena [\<lparr>addr = 16, data = 4096, offset = 200, capacity = 200\<rparr>]) = 1 \<and>
   arena_block_count (scripted_arena [\<lparr>addr = 64, data = 12288, offset = 32, capacity = 36\<rparr>,
                         \<lparr>addr = 32, data = 8208, offset = 0, capacity = 36\<rparr>,
                         \<lparr>addr = 16, data = 4096, offset = 200, capacity = 200\<rparr>]) = 3"
  by (simp add: eval_alloc grow_capacity_32 arena_block_count_def)

subsection \<open>C4: overflow of the byte arithmetic\<close>

text \<open>
  C4, as the code has it. \<^verbatim>\<open>arena_alloc_raw\<close> has no guard against overflow: padding plus
  size is taken modulo \<open>2 ^ 64\<close> and compared with the space available, so a call whose
  sum wraps need not fail. What every call keeps, whether its arithmetic wraps or not:
  no offset exceeds its capacity afterwards, and the blocks that were in the chain are
  still there, in the same order behind the new ones, each with the same record
  address, data pointer and capacity and an offset that is not lower.
\<close>

theorem alloc_keeps_offsets:
  assumes "\<forall>b\<in>set (head ar). offset b \<le> capacity b"
    and "arena_alloc_raw ar h nbytes alignment = Some (Inr (p, ar', h'))"
  shows "(\<forall>b\<in>set (head ar'). offset b \<le> capacity b) \<and>
         (\<exists>new olds. head ar' = new @ olds \<and> list_all2 block_advanced (head ar) olds)"
  using arena_alloc_raw_inv(1,2)[OF assms(2,1)] unfolding chain_extends_def by simp

theorem alloc_keeps_offsets_witness:
  "offset \<lparr>addr = 16, data = 4096, offset = 1, capacity = 200\<rparr>
     \<le> capacity \<lparr>addr = 16, data = 4096, offset = 1, capacity = 200\<rparr> \<and>
   arena_alloc_raw (scripted_arena [\<lparr>addr = 16, data = 4096, offset = 1, capacity = 200\<rparr>]) []
       18446744073709551609 8
     = Some (Inr (4104, scripted_arena [\<lparr>addr = 16, data = 4096, offset = 1, capacity = 200\<rparr>], [])) \<and>
   head (scripted_arena [\<lparr>addr = 16, data = 4096, offset = 1, capacity = 200\<rparr>])
     = [] @ [\<lparr>addr = 16, data = 4096, offset = 1, capacity = 200\<rparr>] \<and>
   block_advanced \<lparr>addr = 16, data = 4096, offset = 1, capacity = 200\<rparr>
     \<lparr>addr = 16, data = 4096, offset = 1, capacity = 200\<rparr>"
proof -
  let ?ar = "scripted_arena [\<lparr>addr = 16, data = 4096, offset = 1, capacity = 200\<rparr>]"
  have h1: "\<forall>b\<in>set (head ?ar). offset b \<le> capacity b" by (simp add: scripted_arena_def)
  have h2: "arena_alloc_raw ?ar [] 18446744073709551609 8 = Some (Inr (4104, ?ar, []))"
    by (simp add: eval_alloc)
  show ?thesis using alloc_keeps_offsets[OF h1 h2] h2
    by (simp add: scripted_arena_def block_advanced_def)
qed

text \<open>
  C4 as the specification has it fails. A block of 200 bytes at 4096 has offset 1; a
  request of \<open>2 ^ 64 - 7\<close> bytes aligned to 8 has padding 7, and 7 plus the size wraps
  to 0, which is within the 199 bytes available: the call returns 4104, not null.
\<close>

theorem alloc_overflow_served:
  "arena_alloc_raw (scripted_arena [\<lparr>addr = 16, data = 4096, offset = 1, capacity = 200\<rparr>]) []
       18446744073709551609 8
     = Some (Inr (4104, scripted_arena [\<lparr>addr = 16, data = 4096, offset = 1, capacity = 200\<rparr>], []))"
  by (simp add: eval_alloc)

subsection \<open>C5: first fit\<close>

text \<open>
  C5. On an arena whose blocks satisfy the block invariant, with \<open>b\<close> the first block
  of the chain, from the head on, that has enough aligned free space for a request
  (size and alignment not zero), \<^verbatim>\<open>arena_alloc_raw\<close> returns the aligned address in
  \<open>b\<close>, advances the offset of \<open>b\<close> by padding plus size and changes nothing else: the
  blocks before and after \<open>b\<close> are as they were, no block is added and the host is not
  called. \<open>b\<close> need not be the head.
\<close>

theorem alloc_first_fit_block:
  assumes "nbytes \<noteq> 0" and "alignment \<noteq> 0"
    and "\<forall>x\<in>set (head ar). block_ok x"
    and "head ar = pre @ b # post"
    and "\<forall>x\<in>set pre. \<not> fits x nbytes alignment"
    and "fits b nbytes alignment"
  shows "\<exists>p. arena_alloc_raw ar h nbytes alignment
           = Some (Inr (p, ar\<lparr>head := pre @ b\<lparr>offset := offset b + (pad_w (data b + offset b) alignment + nbytes)\<rparr> # post\<rparr>, h)) \<and>
         p \<noteq> 0 \<and>
         unat p = unat (data b) + unat (offset b)
                  + padding_to (unat (data b) + unat (offset b)) (unat alignment) \<and>
         unat (offset b + (pad_w (data b + offset b) alignment + nbytes))
           = unat (offset b) + padding_to (unat (data b) + unat (offset b)) (unat alignment) + unat nbytes"
  using assms by (rule alloc_first_fit)

theorem alloc_first_fit_block_witness:
  "block_ok \<lparr>addr = 32, data = 8192, offset = 0, capacity = 4\<rparr> \<and>
   block_ok \<lparr>addr = 16, data = 4096, offset = 2, capacity = 200\<rparr> \<and>
   \<not> fits \<lparr>addr = 32, data = 8192, offset = 0, capacity = 4\<rparr> 120 4 \<and>
   fits \<lparr>addr = 16, data = 4096, offset = 2, capacity = 200\<rparr> 120 4 \<and>
   arena_alloc_raw (scripted_arena [\<lparr>addr = 32, data = 8192, offset = 0, capacity = 4\<rparr>,
                                    \<lparr>addr = 16, data = 4096, offset = 2, capacity = 200\<rparr>]) [] 120 4
     = Some (Inr (4100, scripted_arena [\<lparr>addr = 32, data = 8192, offset = 0, capacity = 4\<rparr>,
                                        \<lparr>addr = 16, data = 4096, offset = 124, capacity = 200\<rparr>], []))"
proof -
  let ?b1 = "\<lparr>addr = 32, data = 8192, offset = 0, capacity = 4\<rparr>"
  let ?b2 = "\<lparr>addr = 16, data = 4096, offset = 2, capacity = 200\<rparr>"
  let ?ar = "scripted_arena [?b1, ?b2]"
  have h1: "(120 :: size_t) \<noteq> 0" and h2: "(4 :: size_t) \<noteq> 0" by simp_all
  have ok: "block_ok ?b1" "block_ok ?b2" by (simp_all add: eval_block_ok)
  then have h3: "\<forall>x\<in>set (head ?ar). block_ok x" by (simp add: scripted_arena_def)
  have h4: "head ?ar = [?b1] @ ?b2 # []" by (simp add: scripted_arena_def)
  have n1: "\<not> fits ?b1 120 4" by (simp add: eval_block_ok)
  then have h5: "\<forall>x\<in>set [?b1]. \<not> fits x 120 4" by simp
  have h6: "fits ?b2 120 4" by (simp add: eval_block_ok)
  have "arena_alloc_raw ?ar [] 120 4
     = Some (Inr (4100, scripted_arena [?b1, \<lparr>addr = 16, data = 4096, offset = 124, capacity = 200\<rparr>], []))"
    using alloc_first_fit_block[OF h1 h2 h3 h4 h5 h6, of "[]"]
    by (simp add: eval_alloc)
  then show ?thesis using ok n1 h6 by simp
qed

subsection \<open>C6: a reservation that fails\<close>

text \<open>
  C6, as the code has it. When every block of the chain rejects a request (size and
  alignment not zero) and the host then returns null, for the block record or for the
  buffer, \<^verbatim>\<open>arena_alloc_raw\<close> returns null and the arena it returns is the arena it was
  given: the same head, blocks and offsets, hence the same block count and total
  capacity. The record handed out before the buffer failed has been released. This is
  the failure of the first growth attempt of a call.
\<close>

theorem alloc_failed_growth:
  assumes "nbytes \<noteq> 0" and "alignment \<noteq> 0"
    and "\<forall>b\<in>set (head ar). block_rejects b nbytes alignment"
    and "align_forward_size nbytes alignment = Inr new_cap"
    and "mem_alloc ar h sizeof_ArenaBlock = (blk, h1)"
    and "mem_alloc ar h1 (grow_capacity new_cap) = (d, h2)"
    and "blk = 0 \<or> d = 0"
  shows "arena_alloc_raw ar h nbytes alignment
           = Some (Inr (0, ar, if blk = 0 then h1 else mem_free ar h2 blk))"
  using assms by (rule alloc_grow_fails)

theorem alloc_failed_growth_witness:
  "block_rejects \<lparr>addr = 16, data = 4096, offset = 200, capacity = 200\<rparr> 4 4 \<and>
   arena_alloc_raw (scripted_arena [\<lparr>addr = 16, data = 4096, offset = 200, capacity = 200\<rparr>]) [] 4 4
     = Some (Inr (0, scripted_arena [\<lparr>addr = 16, data = 4096, offset = 200, capacity = 200\<rparr>], [])) \<and>
   arena_alloc_raw (scripted_arena [\<lparr>addr = 16, data = 4096, offset = 200, capacity = 200\<rparr>]) [32] 4 4
     = Some (Inr (0, scripted_arena [\<lparr>addr = 16, data = 4096, offset = 200, capacity = 200\<rparr>], []))"
proof -
  let ?ar = "scripted_arena [\<lparr>addr = 16, data = 4096, offset = 200, capacity = 200\<rparr>]"
  have h1: "(4 :: size_t) \<noteq> 0" by simp
  have rej: "block_rejects \<lparr>addr = 16, data = 4096, offset = 200, capacity = 200\<rparr> 4 4"
    by (simp add: eval_block_ok)
  then have h3: "\<forall>b\<in>set (head ?ar). block_rejects b 4 4" by (simp add: scripted_arena_def)
  have h4: "align_forward_size 4 4 = Inr (4 :: size_t)" by (simp add: align_forward_size_def)
  have a1: "mem_alloc ?ar [] sizeof_ArenaBlock = (0, [])"
    and a2: "mem_alloc ?ar [] (grow_capacity 4) = (0, [])"
    and b1: "mem_alloc ?ar [32] sizeof_ArenaBlock = (32, [])"
    by (simp_all add: scripted_arena_def scripted_alloc_def)
  have c1: "(0 :: uintptr_t) = 0 \<or> (0 :: uintptr_t) = 0" by simp
  have c2: "(32 :: uintptr_t) = 0 \<or> (0 :: uintptr_t) = 0" by simp
  show ?thesis
    using alloc_failed_growth[OF h1 h1 h3 h4 a1 a2 c1] alloc_failed_growth[OF h1 h1 h3 h4 b1 a2 c2] rej
    by (simp add: scripted_arena_def scripted_free_def)
qed

text \<open>
  C6 as the specification has it fails: a call that returns null because a reservation
  failed can leave the arena changed. A request of 32 bytes aligned to 32 on a full
  arena first gets a block whose buffer, at 8208, cannot serve it; the second
  reservation fails, the call returns null, and the first new block stays in the chain:
  two blocks and 236 bytes instead of one block and 200 bytes.
\<close>

theorem alloc_failed_second_growth:
  "arena_alloc_raw (scripted_arena [\<lparr>addr = 16, data = 4096, offset = 200, capacity = 200\<rparr>])
       [32, 8208] 32 32
     = Some (Inr (0,
         scripted_arena [\<lparr>addr = 32, data = 8208, offset = 0, capacity = 36\<rparr>,
                         \<lparr>addr = 16, data = 4096, offset = 200, capacity = 200\<rparr>], [])) \<and>
   arena_block_count (scripted_arena [\<lparr>addr = 16, data = 4096, offset = 200, capacity = 200\<rparr>]) = 1 \<and>
   arena_total_capacity (scripted_arena [\<lparr>addr = 16, data = 4096, offset = 200, capacity = 200\<rparr>]) = 200 \<and>
   arena_block_count (scripted_arena [\<lparr>addr = 32, data = 8208, offset = 0, capacity = 36\<rparr>,
                         \<lparr>addr = 16, data = 4096, offset = 200, capacity = 200\<rparr>]) = 2 \<and>
   arena_total_capacity (scripted_arena [\<lparr>addr = 32, data = 8208, offset = 0, capacity = 36\<rparr>,
                         \<lparr>addr = 16, data = 4096, offset = 200, capacity = 200\<rparr>]) = 236"
  by (simp add: eval_alloc grow_capacity_32 arena_block_count_def arena_total_capacity_def)

subsection \<open>C7: reset\<close>

text \<open>
  C7. On an arena with at least one block, \<^verbatim>\<open>arena_reset\<close> returns the arena with the
  offset of every block set to zero and nothing else changed: the chain has the same
  blocks in the same order, each with its record address, data pointer and capacity,
  the two procedures are the same, and the block count and the total capacity are
  what they were. The function neither takes nor returns the host's memory, so no
  buffer is released or written.
\<close>

theorem arena_reset_frame:
  "head ar \<noteq> [] \<Longrightarrow>
   arena_reset ar = Inr (ar\<lparr>head := map (\<lambda>b. b\<lparr>offset := 0\<rparr>) (head ar)\<rparr>) \<and>
   arena_block_count (ar\<lparr>head := map (\<lambda>b. b\<lparr>offset := 0\<rparr>) (head ar)\<rparr>) = arena_block_count ar \<and>
   arena_total_capacity (ar\<lparr>head := map (\<lambda>b. b\<lparr>offset := 0\<rparr>) (head ar)\<rparr>) = arena_total_capacity ar"
  by (cases "head ar")
     (simp_all add: arena_reset_def reset_loop_eq arena_block_count_eq arena_total_capacity_eq comp_def)

theorem arena_reset_frame_witness:
  "head (scripted_arena [\<lparr>addr = 32, data = 8192, offset = 4, capacity = 4\<rparr>,
                         \<lparr>addr = 16, data = 4096, offset = 200, capacity = 200\<rparr>]) \<noteq> [] \<and>
   arena_reset (scripted_arena [\<lparr>addr = 32, data = 8192, offset = 4, capacity = 4\<rparr>,
                                \<lparr>addr = 16, data = 4096, offset = 200, capacity = 200\<rparr>])
     = Inr (scripted_arena [\<lparr>addr = 32, data = 8192, offset = 0, capacity = 4\<rparr>,
                            \<lparr>addr = 16, data = 4096, offset = 0, capacity = 200\<rparr>]) \<and>
   arena_block_count (scripted_arena [\<lparr>addr = 32, data = 8192, offset = 0, capacity = 4\<rparr>,
                                      \<lparr>addr = 16, data = 4096, offset = 0, capacity = 200\<rparr>]) = 2 \<and>
   arena_total_capacity (scripted_arena [\<lparr>addr = 32, data = 8192, offset = 0, capacity = 4\<rparr>,
                                         \<lparr>addr = 16, data = 4096, offset = 0, capacity = 200\<rparr>]) = 204"
  using arena_reset_frame [of "scripted_arena [\<lparr>addr = 32, data = 8192, offset = 4, capacity = 4\<rparr>,
                                               \<lparr>addr = 16, data = 4096, offset = 200, capacity = 200\<rparr>]"]
  by (simp add: scripted_arena_def arena_block_count_def arena_total_capacity_def)

subsection \<open>C8: allocation of zero bytes\<close>

text \<open>
  C8. \<^verbatim>\<open>arena_alloc_raw\<close> with a size of zero returns, on every arena and with every
  alignment (zero too), the null pointer without a fault, and leaves the arena and the
  host's memory as they were: no block is added, no capacity and no offset changes.
\<close>

theorem alloc_zero_bytes:
  "arena_alloc_raw ar h 0 alignment = Some (Inr (0, ar, h))"
  by (simp add: arena_alloc_raw.simps)

subsection \<open>C9: creation\<close>

text \<open>
  C9, as the code has it. \<^verbatim>\<open>arena_create\<close> asks the host for one block record and one
  buffer of exactly the capacity requested, zero included: no minimum capacity is put
  in its place. With \<open>blk\<close> the host's answer for the record and \<open>d\<close> its answer for the
  buffer, the arena has the one block \<open>blk\<close> with the buffer \<open>d\<close> of that capacity when
  both are not null; otherwise its head is null and the block count and the total
  capacity are zero.
\<close>

theorem arena_create_one_block:
  assumes "alloc = (case mem_alloc_proc of None \<Rightarrow> dflt_alloc | Some f \<Rightarrow> f)"
    and "alloc h sizeof_ArenaBlock = (blk, h1)" and "alloc h1 cap = (d, h2)"
    and "arena_create dflt_alloc dflt_free mem_alloc_proc mem_free_proc h cap = (ar, h')"
  shows "if blk \<noteq> 0 \<and> d \<noteq> 0
         then head ar = [\<lparr>addr = blk, data = d, offset = 0, capacity = cap\<rparr>] \<and>
              arena_block_count ar = 1 \<and> arena_total_capacity ar = cap
         else head ar = [] \<and> arena_block_count ar = 0 \<and> arena_total_capacity ar = 0"
  using assms
  by (auto simp: arena_create_def arena_block_create_def Let_def arena_block_count_def
        arena_total_capacity_def split: if_splits)

theorem arena_create_one_block_witness:
  "head (fst (arena_create scripted_alloc scripted_free None None [16, 4096] 200))
     = [\<lparr>addr = 16, data = 4096, offset = 0, capacity = 200\<rparr>] \<and>
   arena_block_count (fst (arena_create scripted_alloc scripted_free None None [16, 4096] 200)) = 1 \<and>
   arena_total_capacity (fst (arena_create scripted_alloc scripted_free None None [16, 4096] 200)) = 200 \<and>
   head (fst (arena_create scripted_alloc scripted_free None None [16] 200)) = [] \<and>
   arena_block_count (fst (arena_create scripted_alloc scripted_free None None [16] 200)) = 0 \<and>
   arena_total_capacity (fst (arena_create scripted_alloc scripted_free None None [16] 200)) = 0"
  using arena_create_one_block [where alloc = scripted_alloc and mem_alloc_proc = None
          and dflt_alloc = scripted_alloc and dflt_free = scripted_free and mem_free_proc = None
          and h = "[16, 4096]" and blk = 16 and ?h1.0 = "[4096]" and cap = 200 and d = 4096
          and ?h2.0 = "[]"
          and ar = "fst (arena_create scripted_alloc scripted_free None None [16, 4096] 200)"
          and h' = "snd (arena_create scripted_alloc scripted_free None None [16, 4096] 200)"]
        arena_create_one_block [where alloc = scripted_alloc and mem_alloc_proc = None
          and dflt_alloc = scripted_alloc and dflt_free = scripted_free and mem_free_proc = None
          and h = "[16]" and blk = 16 and ?h1.0 = "[]" and cap = 200 and d = 0
          and ?h2.0 = "[]"
          and ar = "fst (arena_create scripted_alloc scripted_free None None [16] 200)"
          and h' = "snd (arena_create scripted_alloc scripted_free None None [16] 200)"]
  by (simp add: scripted_alloc_def)

text \<open>
  C9 as the specification has it fails: asked for a capacity of zero, the code makes a
  block of capacity zero.
\<close>

theorem arena_create_zero_capacity:
  "arena_create scripted_alloc scripted_free None None [16, 4096] 0
     = (scripted_arena [\<lparr>addr = 16, data = 4096, offset = 0, capacity = 0\<rparr>], []) \<and>
   arena_total_capacity (scripted_arena [\<lparr>addr = 16, data = 4096, offset = 0, capacity = 0\<rparr>]) = 0"
  by (simp add: arena_create_def arena_block_create_def scripted_arena_def scripted_alloc_def
        sizeof_ArenaBlock_def arena_total_capacity_def)

subsection \<open>C10: reset and destroy on a null head\<close>

text \<open>
  C10. On an arena whose head is null, \<^verbatim>\<open>arena_reset\<close> and \<^verbatim>\<open>arena_destroy\<close> dereference
  the null pointer in their first loop condition, while \<^verbatim>\<open>arena_block_count\<close> and
  \<^verbatim>\<open>arena_total_capacity\<close> return zero; on an arena with a block, reset and destroy return
  without a fault, and destroy leaves a null head behind.
\<close>

theorem reset_destroy_need_head:
  "(head ar = [] \<longrightarrow>
      arena_reset ar = Inl Null_deref \<and> arena_destroy ar h = Inl Null_deref \<and>
      arena_block_count ar = 0 \<and> arena_total_capacity ar = 0) \<and>
   (head ar \<noteq> [] \<longrightarrow>
      (\<exists>ar'. arena_reset ar = Inr ar') \<and>
      (\<exists>ar' h'. arena_destroy ar h = Inr (ar', h') \<and> head ar' = []))"
  by (cases "head ar")
     (simp_all add: arena_reset_def arena_destroy_def arena_block_count_def arena_total_capacity_def)

theorem reset_destroy_need_head_witness:
  "arena_reset (scripted_arena []) = Inl Null_deref \<and>
   arena_destroy (scripted_arena []) [] = Inl Null_deref \<and>
   arena_block_count (scripted_arena []) = 0 \<and>
   arena_total_capacity (scripted_arena []) = 0 \<and>
   arena_create scripted_alloc scripted_free None None [] 200 = (scripted_arena [], []) \<and>
   arena_reset (scripted_arena [\<lparr>addr = 16, data = 4096, offset = 8, capacity = 200\<rparr>])
     = Inr (scripted_arena [\<lparr>addr = 16, data = 4096, offset = 0, capacity = 200\<rparr>]) \<and>
   arena_destroy (scripted_arena [\<lparr>addr = 16, data = 4096, offset = 8, capacity = 200\<rparr>]) []
     = Inr (scripted_arena [], [])"
  using reset_destroy_need_head [of "scripted_arena []" "[]"]
    reset_destroy_need_head [of "scripted_arena [\<lparr>addr = 16, data = 4096, offset = 8, capacity = 200\<rparr>]" "[]"]
  by (simp add: scripted_arena_def arena_create_def arena_block_create_def scripted_alloc_def
        scripted_free_def arena_reset_def arena_destroy_def arena_block_destroy_def)

end
